theory Spec2Isabelle
  imports Main
begin

section \<open>Python exceptions\<close>

text \<open>
  Python's exceptions, as far as an \<open>except Exception\<close> clause tells them apart: an instance
  of a class derived from \<open>Exception\<close> (named by its class), or one of the built-in
  exceptions that derive from \<open>BaseException\<close> only.
\<close>

datatype py_exception =
    ExceptionInstance string
  | KeyboardInterrupt
  | SystemExit
  | GeneratorExit

fun is_Exception :: "py_exception \<Rightarrow> bool" where
  "is_Exception (ExceptionInstance _) = True"
| "is_Exception _ = False"

section \<open>Python strings and regular expressions\<close>

text \<open>
  A Python \<open>str\<close> is modelled as a \<open>string\<close>, one \<open>char\<close> per code point; the model
  covers the code points below 256.  \<open>isspace\<close> is \<open>str.isspace\<close> on one character, which
  is also the class \<open>\s\<close> of the \<open>re\<close> module and the set \<open>str.strip()\<close> removes.
\<close>

definition isspace :: "char \<Rightarrow> bool" where
  "isspace c \<longleftrightarrow> c \<in> set
     [CHR 0x09, CHR 0x0A, CHR 0x0B, CHR 0x0C, CHR 0x0D, CHR 0x1C, CHR 0x1D, CHR 0x1E,
      CHR 0x1F, CHR 0x20, CHR 0x85, CHR 0xA0]"

definition isdigit :: "char \<Rightarrow> bool" where
  "isdigit c \<longleftrightarrow> c \<in> set ''0123456789''"

definition isupper_AZ :: "char \<Rightarrow> bool" where
  "isupper_AZ c \<longleftrightarrow> c \<in> set ''ABCDEFGHIJKLMNOPQRSTUVWXYZ''"

definition not_bar :: "char \<Rightarrow> bool" where
  "not_bar c \<longleftrightarrow> c \<noteq> CHR ''|''"

text \<open>The class \<open>.\<close> without \<open>re.DOTALL\<close>: every character but the line feed.\<close>

definition dot :: "char \<Rightarrow> bool" where
  "dot c \<longleftrightarrow> c \<noteq> CHR 0x0A"

definition strip :: "string \<Rightarrow> string" where
  "strip s = rev (dropWhile isspace (rev (dropWhile isspace s)))"

fun startswith :: "string \<Rightarrow> string \<Rightarrow> bool" where
  "startswith s [] = True"
| "startswith [] (p # ps) = False"
| "startswith (c # cs) (p # ps) = (c = p \<and> startswith cs ps)"

definition endswith :: "string \<Rightarrow> string \<Rightarrow> bool" where
  "endswith s p = startswith (rev s) (rev p)"

text \<open>\<open>p in s\<close> on strings.\<close>

fun contains :: "string \<Rightarrow> string \<Rightarrow> bool" where
  "contains [] p = (p = [])"
| "contains (c # cs) p = (startswith (c # cs) p \<or> contains cs p)"

text \<open>\<open>s.find(p)\<close>: the least index where \<open>p\<close> starts, \<open>None\<close> for Python's \<open>-1\<close>.\<close>

fun find :: "string \<Rightarrow> string \<Rightarrow> nat option" where
  "find [] p = (if p = [] then Some 0 else None)"
| "find (c # cs) p =
     (if startswith (c # cs) p then Some 0 else map_option Suc (find cs p))"

text \<open>\<open>s.replace(c, r)\<close> for a one-character \<open>c\<close>, and \<open>s.count(c)\<close>.\<close>

definition replace_char :: "char \<Rightarrow> string \<Rightarrow> string \<Rightarrow> string" where
  "replace_char c r s = concat (map (\<lambda>x. if x = c then r else [x]) s)"

definition count_char :: "char \<Rightarrow> string \<Rightarrow> nat" where
  "count_char c s = length (filter (\<lambda>x. x = c) s)"

text \<open>ASCII case folding, as \<open>re.IGNORECASE\<close> compares the letters of a pattern.\<close>

definition lower_ascii :: "char \<Rightarrow> char" where
  "lower_ascii c = (if isupper_AZ c then char_of (of_char c + (32::nat)) else c)"

fun startswith_nocase :: "string \<Rightarrow> string \<Rightarrow> bool" where
  "startswith_nocase s [] = True"
| "startswith_nocase [] (p # ps) = False"
| "startswith_nocase (c # cs) (p # ps) =
     (lower_ascii c = lower_ascii p \<and> startswith_nocase cs ps)"

text \<open>
  The patterns of the source are sequences of atoms: a literal, a literal compared without
  case, an alternative of literals, a repeated character class (with its least and greatest
  count and whether it is greedy), and the boundary of a capture group.  \<open>rmatch\<close> matches a
  pattern at the start of a string the way Python's backtracking matcher does: a greedy
  repetition tries the longest run first, a lazy one the shortest, an alternative its
  branches from the left; the first success wins.  It returns the inputs that remained at
  the group boundaries and the input that remains after the match.
\<close>

datatype atom =
    Lit string
  | LitI string
  | Alt "string list"
  | Rep "char \<Rightarrow> bool" nat "nat option" bool
  | Mark

fun more_allowed :: "nat option \<Rightarrow> bool" where
  "more_allowed None = True"
| "more_allowed (Some n) = (0 < n)"

fun one_less :: "nat option \<Rightarrow> nat option" where
  "one_less None = None"
| "one_less (Some n) = Some (n - 1)"

fun alt_size :: "atom list \<Rightarrow> nat" where
  "alt_size (Alt ls # as) = length ls"
| "alt_size _ = 0"

function (sequential) rmatch :: "atom list \<Rightarrow> string \<Rightarrow> (string list \<times> string) option" where
  "rmatch [] s = Some ([], s)"
| "rmatch (Lit l # as) s =
     (if startswith s l then rmatch as (drop (length l) s) else None)"
| "rmatch (LitI l # as) s =
     (if startswith_nocase s l then rmatch as (drop (length l) s) else None)"
| "rmatch (Alt [] # as) s = None"
| "rmatch (Alt (l # ls) # as) s =
     (case (if startswith s l then rmatch as (drop (length l) s) else None) of
        Some r \<Rightarrow> Some r
      | None \<Rightarrow> rmatch (Alt ls # as) s)"
| "rmatch (Mark # as) s =
     (case rmatch as s of None \<Rightarrow> None | Some (ms, r) \<Rightarrow> Some (s # ms, r))"
| "rmatch (Rep c lo hi True # as) [] = (if lo = 0 then rmatch as [] else None)"
| "rmatch (Rep c lo hi True # as) (x # xs) =
     (case (if c x \<and> more_allowed hi
            then rmatch (Rep c (lo - 1) (one_less hi) True # as) xs else None) of
        Some r \<Rightarrow> Some r
      | None \<Rightarrow> if lo = 0 then rmatch as (x # xs) else None)"
| "rmatch (Rep c lo hi False # as) [] = (if lo = 0 then rmatch as [] else None)"
| "rmatch (Rep c lo hi False # as) (x # xs) =
     (case (if lo = 0 then rmatch as (x # xs) else None) of
        Some r \<Rightarrow> Some r
      | None \<Rightarrow>
          if c x \<and> more_allowed hi
          then rmatch (Rep c (lo - 1) (one_less hi) False # as) xs else None)"
  by pat_completeness auto
termination
  by (relation "measures [\<lambda>(p, s). length p, \<lambda>(p, s). alt_size p, \<lambda>(p, s). length s]") auto

text \<open>\<open>re.search\<close>: the leftmost start at which the pattern matches.  The result is the
  input at the start of the match, the group boundaries and the input after the match.\<close>

fun re_search :: "atom list \<Rightarrow> string \<Rightarrow> (string \<times> string list \<times> string) option" where
  "re_search p [] = (case rmatch p [] of None \<Rightarrow> None | Some (ms, r) \<Rightarrow> Some ([], ms, r))"
| "re_search p (c # cs) =
     (case rmatch p (c # cs) of
        Some (ms, r) \<Rightarrow> Some (c # cs, ms, r)
      | None \<Rightarrow> re_search p cs)"

text \<open>The text of a group, from the inputs that remained at its two boundaries.\<close>

definition between :: "string \<Rightarrow> string \<Rightarrow> string" where
  "between a b = take (length a - length b) a"

text \<open>
  \<open>re.sub\<close> with a pattern anchored by \<open>^\<close> (no \<open>re.MULTILINE\<close>): at most the match at
  the start of the string is replaced.
\<close>

definition sub_start :: "atom list \<Rightarrow> string \<Rightarrow> string \<Rightarrow> string" where
  "sub_start p repl s = (case rmatch p s of None \<Rightarrow> s | Some (ms, r) \<Rightarrow> repl @ r)"

text \<open>
  \<open>re.sub\<close> with an unanchored pattern: every match, from the left, without overlap.  None
  of the source's patterns matches the empty string; a match that consumes nothing is
  stepped over.
\<close>

function sub_all :: "atom list \<Rightarrow> string \<Rightarrow> string \<Rightarrow> string" where
  "sub_all p repl [] = []"
| "sub_all p repl (c # cs) =
     (case rmatch p (c # cs) of
        None \<Rightarrow> c # sub_all p repl cs
      | Some (ms, r) \<Rightarrow>
          if length r < length (c # cs) then repl @ sub_all p repl r
          else c # sub_all p repl cs)"
  by pat_completeness auto
termination
  by (relation "measure (\<lambda>(p, repl, s). length s)") auto

definition ws0 :: atom where "ws0 = Rep isspace 0 None True"
definition ws1 :: atom where "ws1 = Rep isspace 1 None True"
definition digits :: "nat \<Rightarrow> atom" where "digits n = Rep isdigit n (Some n) True"

text \<open>\<open>\|\s*(INFO|ERROR|WARNING|DEBUG|TRACE|CRITICAL)\s*\|\<close>\<close>

definition level_re :: "atom list" where
  "level_re =
     [Lit ''|'', ws0, Mark,
      Alt [''INFO'', ''ERROR'', ''WARNING'', ''DEBUG'', ''TRACE'', ''CRITICAL''],
      Mark, ws0, Lit ''|'']"

text \<open>\<open>\[\d{2}:\d{2}:\d{2}\]\<close>\<close>

definition old_stamp_re :: "atom list" where
  "old_stamp_re =
     [Lit ''['', digits 2, Lit '':'', digits 2, Lit '':'', digits 2, Lit '']'']"

text \<open>\<open>\d{4}-\d{2}-\d{2}\s+\d{2}:\d{2}:\d{2}\.\d{3}\s*\|\s*[A-Z]+\s*\|\s*[^|]+?\s*-\s*\<close>\<close>

definition loguru_re :: "atom list" where
  "loguru_re =
     [digits 4, Lit ''-'', digits 2, Lit ''-'', digits 2, ws1,
      digits 2, Lit '':'', digits 2, Lit '':'', digits 2, Lit ''.'', digits 3,
      ws0, Lit ''|'', ws0, Rep isupper_AZ 1 None True, ws0, Lit ''|'', ws0,
      Rep not_bar 1 None False, ws0, Lit ''-'', ws0]"

text \<open>\<open>^\[.*?\]\s*\<close>, without its anchor.\<close>

definition bracket_tag_re :: "atom list" where
  "bracket_tag_re = [Lit ''['', Rep dot 0 None False, Lit '']'', ws0]"

section \<open>The log tailer (ForumEngine/monitor.py)\<close>

subsection \<open>Recognising lines\<close>

definition get_log_level :: "string \<Rightarrow> string option" where
  "get_log_level line =
     (case re_search level_re line of
        Some (_, [a, b], _) \<Rightarrow> Some (between a b)
      | _ \<Rightarrow> None)"

definition target_node_patterns :: "string list" where
  "target_node_patterns =
     [''FirstSummaryNode'', ''ReflectionSummaryNode'',
      ''InsightEngine.nodes.summary_node'', ''MediaEngine.nodes.summary_node'',
      ''QueryEngine.nodes.summary_node'', ''nodes.summary_node'',
      ''Generating first paragraph summary'', ''Generating reflection summary'']"

definition error_keywords :: "string list" where
  "error_keywords =
     [''JSON parsing failed'', ''JSON repair failed'', ''Traceback'', ''File \"'']"

definition is_target_log_line :: "string \<Rightarrow> bool" where
  "is_target_log_line line =
     (if get_log_level line = Some ''ERROR'' then False
      else if contains line ''| ERROR'' \<or> contains line ''| ERROR    |'' then False
      else if list_ex (contains line) error_keywords then False
      else list_ex (contains line) target_node_patterns)"

definition exclude_patterns :: "string list" where
  "exclude_patterns =
     [''JSON parsing failed'', ''JSON repair failed'', ''Using cleaned text directly'',
      ''JSON parsing successful'', ''Successfully generated'', ''Updated paragraph'',
      ''Generating'', ''Started processing'', ''Processing complete'', ''Read HOST speech'',
      ''Failed to read HOST speech'', ''HOST speech not found'', ''Debug output'',
      ''Information record'']"

definition is_valuable_content :: "string \<Rightarrow> bool" where
  "is_valuable_content line =
     (if contains line ''Cleaned output'' then True
      else if list_ex (contains line) exclude_patterns then False
      else
        (let clean_line = sub_all old_stamp_re [] line;
             clean_line = sub_all loguru_re [] clean_line;
             clean_line = strip clean_line
         in \<not> length clean_line < 30))"

definition is_json_start_line :: "string \<Rightarrow> bool" where
  "is_json_start_line line = contains line ''Cleaned output: {''"

subsection \<open>JSON values and the repair of a JSON text\<close>

text \<open>
  The values \<open>json.loads\<close> returns.  A float is a mantissa and a binary exponent, or one of
  the three special values the parser accepts.  An object is its list of members; a lookup
  takes the first member with the key.
\<close>

datatype py_float = Finite int int | PosInf | NegInf | NaN

datatype json =
    JNull
  | JBool bool
  | JInt int
  | JFloat py_float
  | JStr string
  | JArr "json list"
  | JObj "(string \<times> json) list"

text \<open>Python's truth value of such a value (\<open>if content:\<close>).\<close>

fun truthy :: "json \<Rightarrow> bool" where
  "truthy JNull = False"
| "truthy (JBool b) = b"
| "truthy (JInt i) = (i \<noteq> 0)"
| "truthy (JFloat (Finite m e)) = (m \<noteq> 0)"
| "truthy (JFloat _) = True"
| "truthy (JStr s) = (s \<noteq> [])"
| "truthy (JArr xs) = (xs \<noteq> [])"
| "truthy (JObj kvs) = (kvs \<noteq> [])"

text \<open>
  The exceptions of the monitor's own code and of the parser that the model tells apart,
  apart from \<open>json.JSONDecodeError\<close>.  All of them derive from \<open>Exception\<close>.
\<close>

datatype py_error = TypeError | ValueError | RecursionError

text \<open>
  \<open>json.loads\<close> and \<open>json.dumps(_, ensure_ascii=False, indent=2)\<close> belong to Python's
  standard library and are parameters of the model.  One call of \<open>json.loads\<close> on a \<open>str\<close>
  returns a value, raises \<open>json.JSONDecodeError\<close>, or raises another exception:
  \<open>RecursionError\<close> on a text nested too deeply, \<open>ValueError\<close> on an integer literal with
  more digits than the interpreter converts.
\<close>

datatype loads_outcome = Loaded json | JSONDecodeError | LoadsRaises py_error

text \<open>
  \<open>fix_json_string\<close> walks the text once.  \<open>fix_scan in_string escape_next rest\<close> is the
  text the loop appends for the characters that remain.
\<close>

fun fix_scan :: "bool \<Rightarrow> bool \<Rightarrow> string \<Rightarrow> string" where
  "fix_scan in_string escape_next [] = []"
| "fix_scan in_string True (c # cs) = c # fix_scan in_string False cs"
| "fix_scan in_string False (c # cs) =
     (if c = CHR 0x5C then c # fix_scan in_string True cs
      else if c = CHR 0x22 then
        (if in_string then
           (case dropWhile isspace cs of
              [] \<Rightarrow> c # fix_scan False False cs
            | next_char # _ \<Rightarrow>
                if next_char \<in> set [CHR '':'', CHR '','', CHR ''}'']
                then c # fix_scan False False cs
                else CHR 0x5C # CHR 0x22 # fix_scan True False cs)
         else c # fix_scan True False cs)
      else c # fix_scan in_string False cs)"

text \<open>
  The first \<open>try\<close> has the one clause \<open>except json.JSONDecodeError\<close>: any other exception of
  the parser leaves the function (\<open>Inl\<close>).  The repair and the second parse stand in a
  \<open>try\<close> whose last clause is \<open>except Exception: return None\<close>.
\<close>

definition fix_json_string ::
  "(string \<Rightarrow> loads_outcome) \<Rightarrow> string \<Rightarrow> py_error + string option" where
  "fix_json_string loads json_text =
     (case loads json_text of
        Loaded _ \<Rightarrow> Inr (Some json_text)
      | LoadsRaises e \<Rightarrow> Inl e
      | JSONDecodeError \<Rightarrow>
          (let fixed_text = fix_scan False False json_text
           in case loads fixed_text of
                Loaded _ \<Rightarrow> Inr (Some fixed_text)
              | JSONDecodeError \<Rightarrow> Inr None
              | LoadsRaises e \<Rightarrow> Inr None))"

subsection \<open>Extracting the content of a captured block\<close>

text \<open>
  \<open>format_json_content\<close>.  On a value that is not an object the membership test or the
  subscript raises inside the \<open>try\<close>, or both keys are absent; every such path returns the
  fallback text.
\<close>

definition format_json_content :: "(json \<Rightarrow> string) \<Rightarrow> json \<Rightarrow> json" where
  "format_json_content dumps json_obj =
     (let fallback = JStr (''Cleaned output: '' @ dumps json_obj)
      in case json_obj of
           JObj kvs \<Rightarrow>
             (let content =
                (case map_of kvs ''updated_paragraph_latest_state'' of
                   Some v \<Rightarrow> Some v
                 | None \<Rightarrow> map_of kvs ''paragraph_latest_state'')
              in case content of
                   Some v \<Rightarrow> if truthy v then v else fallback
                 | None \<Rightarrow> fallback)
         | _ \<Rightarrow> fallback)"

text \<open>
  Parse a text; on \<open>json.JSONDecodeError\<close> repair it and parse the repaired text.  This is
  the body both branches of \<open>extract_json_content\<close> share.  Every other exception, of the
  parser or out of \<open>fix_json_string\<close>, reaches the clause \<open>except Exception: return None\<close>
  that closes \<open>extract_json_content\<close>.
\<close>

definition parse_or_repair ::
  "(string \<Rightarrow> loads_outcome) \<Rightarrow> (json \<Rightarrow> string) \<Rightarrow> string \<Rightarrow> json option" where
  "parse_or_repair loads dumps text =
     (case loads text of
        Loaded json_obj \<Rightarrow> Some (format_json_content dumps json_obj)
      | LoadsRaises e \<Rightarrow> None
      | JSONDecodeError \<Rightarrow>
          (case fix_json_string loads text of
             Inl e \<Rightarrow> None
           | Inr None \<Rightarrow> None
           | Inr (Some fixed_json) \<Rightarrow>
               if fixed_json = [] then None
               else (case loads fixed_json of
                       Loaded json_obj \<Rightarrow> Some (format_json_content dumps json_obj)
                     | JSONDecodeError \<Rightarrow> None
                     | LoadsRaises e \<Rightarrow> None)))"

text \<open>The first line that holds the start marker, with the lines after it.\<close>

fun find_json_start :: "string list \<Rightarrow> (string \<times> string list) option" where
  "find_json_start [] = None"
| "find_json_start (l # ls) =
     (if contains l ''Cleaned output: {'' then Some (l, ls) else find_json_start ls)"

text \<open>The two prefix removals applied to a continuation line.\<close>

definition strip_log_prefix :: "string \<Rightarrow> string" where
  "strip_log_prefix line = sub_start loguru_re [] (sub_start (old_stamp_re @ [ws0]) [] line)"

definition extract_json_content ::
  "(string \<Rightarrow> loads_outcome) \<Rightarrow> (json \<Rightarrow> string) \<Rightarrow> string list \<Rightarrow> json option" where
  "extract_json_content loads dumps json_lines =
     (case find_json_start json_lines of
        None \<Rightarrow> None
      | Some (first_line, rest) \<Rightarrow>
          (case find first_line ''Cleaned output: {'' of
             None \<Rightarrow> None
           | Some json_start_pos \<Rightarrow>
               (let json_part = drop (json_start_pos + length ''Cleaned output: '') first_line
                in if endswith (strip json_part) ''}''
                      \<and> count_char (CHR ''{'') json_part = count_char (CHR ''}'') json_part
                   then parse_or_repair loads dumps (strip json_part)
                   else parse_or_repair loads dumps
                          (strip (json_part @ concat (map strip_log_prefix rest))))))"

text \<open>
  A stand-in for \<open>json.loads\<close> and one for \<open>json.dumps\<close>, used where a property is evaluated
  on concrete lines: they agree with the library on the texts those examples hand to them.
\<close>

definition sample_loads :: "string \<Rightarrow> loads_outcome" where
  "sample_loads t =
     (if t = ''{\"a\": \"x '' @ [CHR 0x5C] @ ''\"y'' @ [CHR 0x5C] @ ''\" z\"}''
      then Loaded (JObj [(''a'', JStr ''x \"y\" z'')])
      else if t = ''{}'' then Loaded (JObj [])
      else if t = ''{\"updated_paragraph_latest_state\": \"alpha beta\"}''
      then Loaded (JObj [(''updated_paragraph_latest_state'', JStr ''alpha beta'')])
      else if t = ''{\"paragraph_latest_state\": 5}''
      then Loaded (JObj [(''paragraph_latest_state'', JInt 5)])
      else JSONDecodeError)"

text \<open>The same, with the answer of the parser to a text of 100000 opening brackets.\<close>

definition deep_text :: string where
  "deep_text = replicate 100000 (CHR ''['')"

definition nesting_loads :: "string \<Rightarrow> loads_outcome" where
  "nesting_loads t = (if t = deep_text then LoadsRaises RecursionError else sample_loads t)"

definition sample_dumps :: "json \<Rightarrow> string" where
  "sample_dumps v = (if v = JObj [] then ''{}'' else ''{...}'')"

subsection \<open>Cleaning captured content\<close>

definition all_app_names :: "string list" where
  "all_app_names = [''INSIGHT'', ''MEDIA'', ''QUERY'']"

text \<open>One round of the loop of \<open>_clean_content_tags\<close> over the application names.\<close>

definition remove_app_tag :: "string \<Rightarrow> string \<Rightarrow> string" where
  "remove_app_tag content name =
     sub_start [LitI name, ws1] []
       (sub_all [Lit ''['', LitI name, Lit '']'', ws0] [] content)"

definition clean_content_tags :: "string \<Rightarrow> string" where
  "clean_content_tags content =
     (if content = [] then content
      else
        (let content = foldl remove_app_tag content all_app_names;
             content = sub_start bracket_tag_re [] content;
             content = sub_all [ws1] '' '' content
         in strip content))"

text \<open>
  \<open>while re.match(r'^\[.*?\]\s*', content): content = re.sub(...)\<close>: a matching tag has at
  least two characters, so each round shortens the text.
\<close>

function strip_bracket_tags :: "string \<Rightarrow> string" where
  "strip_bracket_tags content =
     (case rmatch bracket_tag_re content of
        None \<Rightarrow> content
      | Some (ms, r) \<Rightarrow> if length r < length content then strip_bracket_tags r else r)"
  by pat_completeness auto
termination
  by (relation "measure length") auto

text \<open>The first of the prefixes that the content starts with is removed.\<close>

fun remove_first_prefix :: "string list \<Rightarrow> string \<Rightarrow> string" where
  "remove_first_prefix [] content = content"
| "remove_first_prefix (p # ps) content =
     (if startswith content p then drop (length p) content else remove_first_prefix ps content)"

definition extract_node_content :: "string \<Rightarrow> string" where
  "extract_node_content line =
     (let content =
        (case re_search (old_stamp_re @ [ws0, Mark, Rep dot 1 None True]) line of
           Some (_, [g], r) \<Rightarrow> strip (between g r)
         | _ \<Rightarrow>
             (case re_search (loguru_re @ [Mark, Rep dot 1 None True]) line of
                Some (_, [g], r) \<Rightarrow> strip (between g r)
              | _ \<Rightarrow> line))
      in if content = [] then strip line
         else
           (let content = sub_start bracket_tag_re [] content;
                content = strip_bracket_tags content;
                content = remove_first_prefix
                  [''First summary: '', ''Reflection summary: '', ''Cleaned output: ''] content;
                content = foldl (\<lambda>c name. sub_start [LitI name, ws1] [] c) content all_app_names;
                content = sub_all [ws1] '' '' content
            in strip content))"

subsection \<open>Capturing multi-line JSON: \<open>process_lines_for_json\<close>\<close>

text \<open>
  The monitored logs are those of the three engines.  The monitor keeps one capture state
  per engine in the dictionaries \<open>capturing_json\<close>, \<open>json_buffer\<close>, \<open>json_start_line\<close> and
  \<open>in_error_block\<close>; a missing key is initialised to \<open>False\<close>, the empty list and \<open>False\<close>
  before it is read, which \<open>initial_tailer\<close> stands for.
\<close>

datatype engine = Insight | Media | Query

record tailer_state =
  capturing_json :: bool
  json_buffer :: "string list"
  json_start_line :: "string option"
  in_error_block :: bool

definition initial_tailer :: tailer_state where
  "initial_tailer =
     \<lparr>capturing_json = False, json_buffer = [], json_start_line = None, in_error_block = False\<rparr>"

text \<open>\<open>if self.capturing_json[app_name]: ... = False; self.json_buffer[app_name] = []\<close>\<close>

definition drop_capture :: "tailer_state \<Rightarrow> tailer_state" where
  "drop_capture st =
     (if capturing_json st then st\<lparr>capturing_json := False, json_buffer := []\<rparr> else st)"

text \<open>The unconditional reset after a block has been processed.\<close>

definition reset_capture :: "tailer_state \<Rightarrow> tailer_state" where
  "reset_capture st = st\<lparr>capturing_json := False, json_buffer := []\<rparr>"

text \<open>
  What follows \<open>content = self.extract_json_content(...)\<close>: a content that is not falsy is
  cleaned and recorded, then the capture is reset.  \<open>_clean_content_tags\<close> hands a content
  that is not a string to \<open>re.sub\<close>, which raises \<open>TypeError\<close>; the reset is then not reached.
\<close>

definition record_content :: "tailer_state \<Rightarrow> json option \<Rightarrow> tailer_state \<times> (py_error + string list)" where
  "record_content st content =
     (case content of
        None \<Rightarrow> (reset_capture st, Inr [])
      | Some v \<Rightarrow>
          if truthy v then
            (case v of
               JStr s \<Rightarrow> (reset_capture st, Inr [clean_content_tags s])
             | _ \<Rightarrow> (st, Inl TypeError))
          else (reset_capture st, Inr []))"

text \<open>The end marker test on a continuation line.\<close>

definition is_end_marker :: "string \<Rightarrow> bool" where
  "is_end_marker line =
     (let cleaned_line = strip line;
          cleaned_line = sub_start (old_stamp_re @ [ws0]) [] cleaned_line;
          cleaned_line = sub_start loguru_re [] cleaned_line;
          cleaned_line = strip cleaned_line
      in cleaned_line = ''}'' \<or> cleaned_line = ''] }'')"

text \<open>The body of the loop over the lines: the new state and what the line appended to
  \<open>captured_contents\<close>, or the exception it raised.\<close>

definition process_line ::
  "(string \<Rightarrow> loads_outcome) \<Rightarrow> (json \<Rightarrow> string) \<Rightarrow> tailer_state \<Rightarrow> string
     \<Rightarrow> tailer_state \<times> (py_error + string list)" where
  "process_line loads dumps st line =
     (if strip line = [] then (st, Inr [])
      else if get_log_level line = Some ''ERROR''
      then (drop_capture (st\<lparr>in_error_block := True\<rparr>), Inr [])
      else
        (let st = (if get_log_level line = Some ''INFO''
                   then st\<lparr>in_error_block := False\<rparr> else st)
         in if in_error_block st then (drop_capture st, Inr [])
            else if is_target_log_line line \<and> is_json_start_line line then
              (let st = st\<lparr>capturing_json := True, json_buffer := [line],
                            json_start_line := Some line\<rparr>
               in if endswith (strip line) ''}''
                  then record_content st (extract_json_content loads dumps [line])
                  else (st, Inr []))
            else if is_target_log_line line \<and> is_valuable_content line
            then (st, Inr [clean_content_tags (extract_node_content line)])
            else if capturing_json st then
              (let st = st\<lparr>json_buffer := json_buffer st @ [line]\<rparr>
               in if is_end_marker line
                  then record_content st (extract_json_content loads dumps (json_buffer st))
                  else (st, Inr []))
            else (st, Inr [])))"

text \<open>The loop: an exception ends it, and the contents captured so far are lost with it.\<close>

fun process_lines ::
  "(string \<Rightarrow> loads_outcome) \<Rightarrow> (json \<Rightarrow> string) \<Rightarrow> tailer_state \<Rightarrow> string list
     \<Rightarrow> string list \<Rightarrow> tailer_state \<times> (py_error + string list)" where
  "process_lines loads dumps st [] captured = (st, Inr captured)"
| "process_lines loads dumps st (line # lines) captured =
     (case process_line loads dumps st line of
        (st', Inl e) \<Rightarrow> (st', Inl e)
      | (st', Inr new) \<Rightarrow> process_lines loads dumps st' lines (captured @ new))"

definition process_lines_for_json ::
  "(string \<Rightarrow> loads_outcome) \<Rightarrow> (json \<Rightarrow> string) \<Rightarrow> tailer_state \<Rightarrow> string list
     \<Rightarrow> tailer_state \<times> (py_error + string list)" where
  "process_lines_for_json loads dumps st lines = process_lines loads dumps st lines []"

subsection \<open>A multi-line block, as the loop sees it\<close>

text \<open>The text of a start line from the opening brace on.\<close>

definition json_part :: "string \<Rightarrow> string" where
  "json_part first_line =
     (case find first_line ''Cleaned output: {'' of
        None \<Rightarrow> []
      | Some json_start_pos \<Rightarrow> drop (json_start_pos + length ''Cleaned output: '') first_line)"

text \<open>
  A line that the loop, while it captures, appends to the buffer: it is not blank, its level
  is not ERROR, and it is not itself taken as a line of a summary node that starts a new
  block or carries valuable content.
\<close>

definition continuation_line :: "string \<Rightarrow> bool" where
  "continuation_line line \<longleftrightarrow>
     strip line \<noteq> [] \<and> get_log_level line \<noteq> Some ''ERROR'' \<and>
     \<not> (is_target_log_line line \<and> (is_json_start_line line \<or> is_valuable_content line))"

text \<open>The object a text parses to, directly or after the repair.\<close>

definition parsed_or_repaired :: "(string \<Rightarrow> loads_outcome) \<Rightarrow> string \<Rightarrow> json option" where
  "parsed_or_repaired loads text =
     (case loads text of
        Loaded json_obj \<Rightarrow> Some json_obj
      | LoadsRaises e \<Rightarrow> None
      | JSONDecodeError \<Rightarrow>
          if fix_scan False False text = [] then None
          else (case loads (fix_scan False False text) of
                  Loaded json_obj \<Rightarrow> Some json_obj
                | _ \<Rightarrow> None))"

text \<open>The state in which the lines of a block have been buffered, before its content is
  recorded.\<close>

definition capturing :: "tailer_state \<Rightarrow> string \<Rightarrow> string list \<Rightarrow> tailer_state" where
  "capturing st first_line later =
     st\<lparr>in_error_block := False, capturing_json := True, json_buffer := first_line # later,
        json_start_line := Some first_line\<rparr>"

text \<open>The text of a block: the start line from its brace on, then the later lines without
  their log prefixes, stripped as a whole.\<close>

definition block_text :: "string \<Rightarrow> string list \<Rightarrow> string" where
  "block_text first_line later =
     strip (json_part first_line @ concat (map strip_log_prefix later))"

subsection \<open>Example log lines\<close>

text \<open>Lines in the format the engines write, on which the properties below are evaluated.\<close>

definition err_line :: string where
  "err_line = ''2025-01-01 12:00:00.000 | ERROR    | e.nodes.summary_node:run:120 - JSON parsing failed: x''"

definition warn_json_line :: string where
  "warn_json_line = ''2025-01-01 12:00:00.100 | WARNING  | e.nodes.summary_node:run:121 - Cleaned output: {}''"

definition info_json_line :: string where
  "info_json_line = ''2025-01-01 12:00:00.200 | INFO     | e.nodes.summary_node:run:125 - Cleaned output: {}''"

definition start_line :: string where
  "start_line = ''2025-01-01 12:00:00.000 | INFO     | InsightEngine.nodes.summary_node:process_output:125 - Cleaned output: {''"

definition stamped_member_line :: string where
  "stamped_member_line = ''2025-01-01 12:00:00.001 | INFO     | InsightEngine.nodes.summary_node:process_output:125 - \"updated_paragraph_latest_state\": \"alpha beta\"''"

definition stamped_end_line :: string where
  "stamped_end_line = ''2025-01-01 12:00:00.002 | INFO     | InsightEngine.nodes.summary_node:process_output:125 - }''"

definition plain_member_line :: string where
  "plain_member_line = ''[12:00:00] \"updated_paragraph_latest_state\": \"alpha beta\"''"

definition plain_end_line :: string where
  "plain_end_line = ''[12:00:00] }''"

definition plain_garbage_line :: string where
  "plain_garbage_line = ''[12:00:00] oops''"

subsection \<open>Writing the forum log: \<open>write_to_forum_log\<close>\<close>

text \<open>
  The wall-clock time \<open>datetime.now()\<close> returns, as far as \<open>strftime('%H:%M:%S')\<close> reads it.
\<close>

record time_of_day =
  hour :: nat
  minute :: nat
  second :: nat

definition valid_time :: "time_of_day \<Rightarrow> bool" where
  "valid_time t \<longleftrightarrow> hour t < 24 \<and> minute t < 60 \<and> second t < 60"

definition digit_char :: "nat \<Rightarrow> char" where
  "digit_char n = ''0123456789'' ! n"

definition two_digits :: "nat \<Rightarrow> string" where
  "two_digits n = [digit_char (n div 10), digit_char (n mod 10)]"

definition strftime_HMS :: "time_of_day \<Rightarrow> string" where
  "strftime_HMS t = two_digits (hour t) @ '':'' @ two_digits (minute t) @ '':'' @ two_digits (second t)"

text \<open>\<open>content.replace('\n', '\\n').replace('\r', '\\r')\<close>\<close>

definition escape_newlines :: "string \<Rightarrow> string" where
  "escape_newlines content =
     replace_char (CHR 0x0D) [CHR 0x5C, CHR ''r'']
       (replace_char (CHR 0x0A) [CHR 0x5C, CHR ''n''] content)"

text \<open>
  The file is opened for appending; the function returns the new text of the file.  The
  source tag is optional, and an empty tag counts as none (\<open>if source:\<close>).
\<close>

definition write_to_forum_log ::
  "string \<Rightarrow> time_of_day \<Rightarrow> string \<Rightarrow> string option \<Rightarrow> string" where
  "write_to_forum_log forum_log now content source =
     (let timestamp = strftime_HMS now;
          content_one_line = escape_newlines content
      in case source of
           Some src \<Rightarrow>
             if src \<noteq> []
             then forum_log @ ''['' @ timestamp @ ''] ['' @ src @ ''] '' @ content_one_line @ [CHR 0x0A]
             else forum_log @ ''['' @ timestamp @ ''] '' @ content_one_line @ [CHR 0x0A]
         | None \<Rightarrow> forum_log @ ''['' @ timestamp @ ''] '' @ content_one_line @ [CHR 0x0A])"

text \<open>A character that ends a physical line of a text file.\<close>

definition line_break :: "char \<Rightarrow> bool" where
  "line_break c \<longleftrightarrow> c = CHR 0x0A \<or> c = CHR 0x0D"

text \<open>The pattern of a forum log line, \<open>^\[\d{2}:\d{2}:\d{2}\] \[[A-Z]+\] [^\n]*$\<close>, without
  its anchors.\<close>

definition forum_line_re :: "atom list" where
  "forum_line_re =
     old_stamp_re @ [Lit '' ['', Rep isupper_AZ 1 None True, Lit ''] '', Rep dot 0 None True]"

definition sample_time :: time_of_day where
  "sample_time = \<lparr>hour = 9, minute = 5, second = 30\<rparr>"

definition sample_content :: string where
  "sample_content = ''alpha'' @ [CHR 0x0A] @ ''beta'' @ [CHR 0x0D]"

subsection \<open>Reading new lines and detecting truncation\<close>












datatype log_file = NoFile | LogFile string














definition more_lines_log :: log_file where
  "more_lines_log = LogFile (''a'' @ [CHR 0x0A] @ ''b'' @ [CHR 0x0A] @ ''c'' @ [CHR 0x0A] @ ''d'' @ [CHR 0x0A])"







subsection \<open>The moderator: \<open>_trigger_host_speech\<close> and the publication of captured content\<close>

text \<open>
  \<open>generate_host_speech\<close> calls a language model: it returns a speech, returns \<open>None\<close>, or
  raises.  The model takes it as a parameter \<open>host\<close>; its first argument is the number of
  calls made before, since the answer to the same speeches may differ from call to call.
  \<open>HOST_AVAILABLE\<close> is the module constant that records whether the host module could be
  imported.
\<close>

datatype host_outcome = Speech string | NoSpeech | HostRaises py_exception

text \<open>
  The part of the monitor the moderator works on.  \<open>host_calls\<close> is not a field of the
  source: it records the argument of every call of \<open>generate_host_speech\<close>, in order.
\<close>

record moderator =
  agent_speeches_buffer :: "string list"
  is_host_generating :: bool
  forum_log :: string
  host_calls :: "string list list"

definition initial_moderator :: moderator where
  "initial_moderator =
     \<lparr>agent_speeches_buffer = [], is_host_generating = False, forum_log = [], host_calls = []\<rparr>"

definition host_speech_threshold :: nat where
  "host_speech_threshold = 5"

text \<open>
  \<open>_trigger_host_speech\<close>.  The body stands in a \<open>try\<close> with the one clause
  \<open>except Exception\<close>, which resets the flag.  An exception of the host that does not derive
  from \<open>Exception\<close> passes it: it leaves the function, the flag still set.  The result is
  the monitor after the call and the exception that leaves it, if any.
\<close>

definition trigger_host_speech ::
  "bool \<Rightarrow> (nat \<Rightarrow> string list \<Rightarrow> host_outcome) \<Rightarrow> time_of_day \<Rightarrow> moderator
     \<Rightarrow> moderator \<times> py_exception option" where
  "trigger_host_speech HOST_AVAILABLE host now m =
     (if \<not> HOST_AVAILABLE \<or> is_host_generating m then (m, None)
      else
        (let m = m\<lparr>is_host_generating := True\<rparr>;
             recent_speeches = take 5 (agent_speeches_buffer m)
         in if length recent_speeches < 5 then (m\<lparr>is_host_generating := False\<rparr>, None)
            else
              (let answer = host (length (host_calls m)) recent_speeches;
                   m = m\<lparr>host_calls := host_calls m @ [recent_speeches]\<rparr>
               in case answer of
                    Speech host_speech \<Rightarrow>
                      if host_speech \<noteq> []
                      then (m\<lparr>forum_log :=
                                write_to_forum_log (forum_log m) now host_speech (Some ''HOST''),
                              agent_speeches_buffer := drop 5 (agent_speeches_buffer m),
                              is_host_generating := False\<rparr>, None)
                      else (m\<lparr>is_host_generating := False\<rparr>, None)
                  | NoSpeech \<Rightarrow> (m\<lparr>is_host_generating := False\<rparr>, None)
                  | HostRaises e \<Rightarrow>
                      if is_Exception e then (m\<lparr>is_host_generating := False\<rparr>, None)
                      else (m, Some e))))"

text \<open>\<open>app_name.upper()\<close> for the three monitored logs.\<close>

fun source_tag :: "engine \<Rightarrow> string" where
  "source_tag Insight = ''INSIGHT''"
| "source_tag Media = ''MEDIA''"
| "source_tag Query = ''QUERY''"

text \<open>
  One captured content in \<open>monitor_logs\<close>: it is written to the forum log, appended to the
  buffer as a log line, and the host is triggered when the buffer has reached the threshold.
  The three times are the readings of \<open>datetime.now()\<close> for the forum line, for the buffered
  line and for the host's line.
\<close>

record utterance =
  said :: string
  speaker :: engine
  written_at :: time_of_day
  buffered_at :: time_of_day
  host_at :: time_of_day

definition publish ::
  "bool \<Rightarrow> (nat \<Rightarrow> string list \<Rightarrow> host_outcome) \<Rightarrow> moderator \<Rightarrow> utterance
     \<Rightarrow> moderator \<times> py_exception option" where
  "publish HOST_AVAILABLE host m u =
     (let m = m\<lparr>forum_log :=
                  write_to_forum_log (forum_log m) (written_at u) (said u)
                    (Some (source_tag (speaker u)))\<rparr>;
          log_line = ''['' @ strftime_HMS (buffered_at u) @ ''] ['' @ source_tag (speaker u)
                     @ ''] '' @ said u;
          m = m\<lparr>agent_speeches_buffer := agent_speeches_buffer m @ [log_line]\<rparr>
      in if length (agent_speeches_buffer m) \<ge> host_speech_threshold \<and> \<not> is_host_generating m
         then trigger_host_speech HOST_AVAILABLE host (host_at u) m
         else (m, None))"

text \<open>
  The captured contents are published in order.  An exception that leaves
  \<open>_trigger_host_speech\<close> does not derive from \<open>Exception\<close>, so it also passes the
  \<open>except Exception\<close> clause of the loop of \<open>monitor_logs\<close> and ends the publication.
\<close>

fun publish_all ::
  "bool \<Rightarrow> (nat \<Rightarrow> string list \<Rightarrow> host_outcome) \<Rightarrow> moderator \<Rightarrow> utterance list
     \<Rightarrow> moderator \<times> py_exception option" where
  "publish_all HOST_AVAILABLE host m [] = (m, None)"
| "publish_all HOST_AVAILABLE host m (u # us) =
     (case publish HOST_AVAILABLE host m u of
        (m', None) \<Rightarrow> publish_all HOST_AVAILABLE host m' us
      | (m', Some e) \<Rightarrow> (m', Some e))"

text \<open>A synthesis succeeds when the host returns a speech that is not empty.\<close>

fun succeeded :: "host_outcome \<Rightarrow> bool" where
  "succeeded (Speech s) = (s \<noteq> [])"
| "succeeded _ = False"

fun speech_of :: "host_outcome \<Rightarrow> string" where
  "speech_of (Speech s) = s"
| "speech_of _ = []"

text \<open>The exception of the host that no clause catches, if there is one.\<close>

fun uncaught :: "host_outcome \<Rightarrow> py_exception option" where
  "uncaught (HostRaises e) = (if is_Exception e then None else Some e)"
| "uncaught _ = None"

definition always_succeeds :: "(nat \<Rightarrow> string list \<Rightarrow> host_outcome) \<Rightarrow> bool" where
  "always_succeeds host \<longleftrightarrow> (\<forall>n speeches. succeeded (host n speeches))"

text \<open>No synthesis is in flight and the buffer is below the threshold.\<close>

definition quiet :: "moderator \<Rightarrow> bool" where
  "quiet m \<longleftrightarrow> \<not> is_host_generating m \<and> length (agent_speeches_buffer m) < 5"

text \<open>Twelve utterances and a host that always answers, for the evaluation of the properties.\<close>

definition sample_utterance :: utterance where
  "sample_utterance =
     \<lparr>said = ''progress'', speaker = Media, written_at = sample_time,
      buffered_at = sample_time, host_at = sample_time\<rparr>"

definition twelve_utterances :: "utterance list" where
  "twelve_utterances = replicate 12 sample_utterance"

definition agreeable_host :: "nat \<Rightarrow> string list \<Rightarrow> host_outcome" where
  "agreeable_host n speeches = Speech ''Summary''"

definition failing_host :: "nat \<Rightarrow> string list \<Rightarrow> host_outcome" where
  "failing_host n speeches = HostRaises (ExceptionInstance ''TimeoutError'')"

definition interrupted_host :: "nat \<Rightarrow> string list \<Rightarrow> host_outcome" where
  "interrupted_host n speeches = HostRaises KeyboardInterrupt"

definition six_buffered :: moderator where
  "six_buffered = initial_moderator\<lparr>agent_speeches_buffer := [''a'', ''b'', ''c'', ''d'', ''e'', ''f'']\<rparr>"

section \<open>The readiness gate (ReportEngine/agent.py)\<close>

text \<open>
  What the gate reads of the file system: a path is absent, a file that is not a directory,
  or a directory with the names of its entries.  \<open>os.listdir\<close> on a
  path that exists and is not a directory raises \<open>NotADirectoryError\<close>.
\<close>

datatype fs_entry = Missing | RegularFile | Directory "string list"

type_synonym filesystem = "string \<Rightarrow> fs_entry"

datatype os_error = NotADirectoryError | FileNotFoundError | PermissionError

definition path_exists :: "filesystem \<Rightarrow> string \<Rightarrow> bool" where
  "path_exists fs path \<longleftrightarrow> fs path \<noteq> Missing"

text \<open>\<open>[f for f in os.listdir(directory) if f.endswith('.md')]\<close>, on a path that exists.\<close>

definition list_md_files :: "filesystem \<Rightarrow> string \<Rightarrow> os_error + string list" where
  "list_md_files fs directory =
     (case fs directory of
        Directory entries \<Rightarrow> Inr (filter (\<lambda>f. endswith f ''.md'') entries)
      | _ \<Rightarrow> Inl NotADirectoryError)"

text \<open>\<open>self.baseline_data.get(engine, 0)\<close>\<close>

definition baseline_get :: "(string \<rightharpoonup> int) \<Rightarrow> string \<Rightarrow> int" where
  "baseline_get baseline_data engine =
     (case baseline_data engine of None \<Rightarrow> 0 | Some n \<Rightarrow> n)"

text \<open>The dictionaries of the result are lists of items in insertion order.\<close>

record new_files_result =
  ready :: bool
  baseline_counts :: "string \<rightharpoonup> int"
  current_counts :: "(string \<times> int) list"
  new_files_found :: "(string \<times> int) list"
  missing_engines :: "string list"

text \<open>The loop of \<open>check_new_files\<close> over \<open>directories.items()\<close>, on the three accumulators.\<close>

fun check_loop ::
  "filesystem \<Rightarrow> (string \<rightharpoonup> int) \<Rightarrow> (string \<times> string) list
     \<Rightarrow> (string \<times> int) list \<times> (string \<times> int) list \<times> bool
     \<Rightarrow> os_error + (string \<times> int) list \<times> (string \<times> int) list \<times> bool" where
  "check_loop fs baseline_data [] acc = Inr acc"
| "check_loop fs baseline_data ((engine, directory) # rest) (counts, found, all_have_new) =
     (if path_exists fs directory then
        (case list_md_files fs directory of
           Inl e \<Rightarrow> Inl e
         | Inr md_files \<Rightarrow>
             (let current = int (length md_files);
                  baseline_count = baseline_get baseline_data engine
              in if current > baseline_count
                 then check_loop fs baseline_data rest
                        (counts @ [(engine, current)],
                         found @ [(engine, current - baseline_count)], all_have_new)
                 else check_loop fs baseline_data rest
                        (counts @ [(engine, current)], found @ [(engine, 0)], False)))
      else check_loop fs baseline_data rest
             (counts @ [(engine, 0)], found @ [(engine, 0)], False))"

definition check_new_files ::
  "filesystem \<Rightarrow> (string \<rightharpoonup> int) \<Rightarrow> (string \<times> string) list \<Rightarrow> os_error + new_files_result" where
  "check_new_files fs baseline_data directories =
     (case check_loop fs baseline_data directories ([], [], True) of
        Inl e \<Rightarrow> Inl e
      | Inr (counts, found, all_have_new) \<Rightarrow>
          Inr \<lparr>ready = all_have_new, baseline_counts = baseline_data,
               current_counts = counts, new_files_found = found,
               missing_engines = map fst (filter (\<lambda>(engine, count). count = 0) found)\<rparr>)"

text \<open>
  \<open>os.path.join(directory, x)\<close> for a name \<open>x\<close> that \<open>os.listdir\<close> has returned (it holds no
  separator), on a POSIX system.
\<close>

definition os_path_join :: "string \<Rightarrow> string \<Rightarrow> string" where
  "os_path_join directory x =
     (if directory = [] then x
      else if last directory = CHR ''/'' then directory @ x
      else directory @ ''/'' @ x)"

text \<open>
  \<open>max(md_files, key=...)\<close>: the key of every item is computed, in order, and an item
  replaces the best one so far when its key is greater.  An exception of the key function
  ends the search.
\<close>

fun max_by :: "('a \<Rightarrow> 'e + 't::linorder) \<Rightarrow> 'a list \<Rightarrow> ('a \<times> 't) option \<Rightarrow> 'e + ('a \<times> 't) option" where
  "max_by key [] best = Inr best"
| "max_by key (x # xs) best =
     (case key x of
        Inl e \<Rightarrow> Inl e
      | Inr v \<Rightarrow>
          (case best of
             None \<Rightarrow> max_by key xs (Some (x, v))
           | Some (bx, bv) \<Rightarrow>
               if v > bv then max_by key xs (Some (x, v)) else max_by key xs best))"

text \<open>
  \<open>get_latest_files\<close>.  \<open>os.path.getmtime\<close> is the parameter \<open>getmtime\<close>: it returns the time of
  the last change of a path or raises, as it does for a name whose file has been removed or
  that is a link to nothing.  The function has no \<open>try\<close>: the exception leaves it.
\<close>

fun latest_loop ::
  "filesystem \<Rightarrow> (string \<Rightarrow> os_error + 't::linorder) \<Rightarrow> (string \<times> string) list
     \<Rightarrow> (string \<times> string) list \<Rightarrow> os_error + (string \<times> string) list" where
  "latest_loop fs getmtime [] latest_files = Inr latest_files"
| "latest_loop fs getmtime ((engine, directory) # rest) latest_files =
     (if path_exists fs directory then
        (case list_md_files fs directory of
           Inl e \<Rightarrow> Inl e
         | Inr md_files \<Rightarrow>
             if md_files \<noteq> [] then
               (case max_by (\<lambda>x. getmtime (os_path_join directory x)) md_files None of
                  Inl e \<Rightarrow> Inl e
                | Inr None \<Rightarrow> latest_loop fs getmtime rest latest_files
                | Inr (Some (latest_file, t)) \<Rightarrow>
                    latest_loop fs getmtime rest
                      (latest_files @ [(engine, os_path_join directory latest_file)]))
             else latest_loop fs getmtime rest latest_files)
      else latest_loop fs getmtime rest latest_files)"

definition get_latest_files ::
  "filesystem \<Rightarrow> (string \<Rightarrow> os_error + 't::linorder) \<Rightarrow> (string \<times> string) list
     \<Rightarrow> os_error + (string \<times> string) list" where
  "get_latest_files fs getmtime directories = latest_loop fs getmtime directories []"

text \<open>
  \<open>check_input_files\<close>.  Of its result the model keeps the readiness flag, the three
  dictionaries it copies from \<open>check_new_files\<close> and the paths of the latest files; the two
  lists of messages for the user, which are formatted from these, are left out.  The latest
  files are looked up only for a result that is ready.
\<close>

record input_check =
  input_ready :: bool
  input_baseline_counts :: "string \<rightharpoonup> int"
  input_current_counts :: "(string \<times> int) list"
  input_new_files_found :: "(string \<times> int) list"
  input_latest_files :: "(string \<times> string) list"

definition engine_directories :: "string \<Rightarrow> string \<Rightarrow> string \<Rightarrow> (string \<times> string) list" where
  "engine_directories insight_dir media_dir query_dir =
     [(''insight'', insight_dir), (''media'', media_dir), (''query'', query_dir)]"

definition check_input_files ::
  "filesystem \<Rightarrow> (string \<Rightarrow> os_error + 't::linorder) \<Rightarrow> (string \<rightharpoonup> int)
     \<Rightarrow> string \<Rightarrow> string \<Rightarrow> string \<Rightarrow> string \<Rightarrow> os_error + input_check" where
  "check_input_files fs getmtime baseline_data insight_dir media_dir query_dir forum_log_path =
     (let directories = engine_directories insight_dir media_dir query_dir
      in case check_new_files fs baseline_data directories of
           Inl e \<Rightarrow> Inl e
         | Inr check_result \<Rightarrow>
             (let forum_ready = path_exists fs forum_log_path;
                  result = \<lparr>input_ready = ready check_result \<and> forum_ready,
                            input_baseline_counts = baseline_counts check_result,
                            input_current_counts = current_counts check_result,
                            input_new_files_found = new_files_found check_result,
                            input_latest_files = []\<rparr>
              in if input_ready result then
                   (case get_latest_files fs getmtime directories of
                      Inl e \<Rightarrow> Inl e
                    | Inr latest_files \<Rightarrow>
                        Inr (result\<lparr>input_latest_files :=
                               (if forum_ready then latest_files @ [(''forum'', forum_log_path)]
                                else latest_files)\<rparr>))
                 else Inr result))"

text \<open>The number of \<open>.md\<close> files in a directory; a path that is no directory has none.\<close>

definition md_count :: "filesystem \<Rightarrow> string \<Rightarrow> int" where
  "md_count fs directory =
     (case fs directory of
        Directory entries \<Rightarrow> int (length (filter (\<lambda>f. endswith f ''.md'') entries))
      | _ \<Rightarrow> 0)"

text \<open>The \<open>.md\<close> files of a directory.\<close>

definition md_files_of :: "filesystem \<Rightarrow> string \<Rightarrow> string list" where
  "md_files_of fs directory =
     (case fs directory of
        Directory entries \<Rightarrow> filter (\<lambda>f. endswith f ''.md'') entries
      | _ \<Rightarrow> [])"

text \<open>The time of the last change can be read for every \<open>.md\<close> file of the directories.\<close>

definition mtimes_readable ::
  "filesystem \<Rightarrow> (string \<Rightarrow> os_error + 't) \<Rightarrow> (string \<times> string) list \<Rightarrow> bool" where
  "mtimes_readable fs getmtime directories \<longleftrightarrow>
     list_all (\<lambda>(engine, directory).
        list_all (\<lambda>f. \<not> isl (getmtime (os_path_join directory f))) (md_files_of fs directory))
       directories"

text \<open>A recorded baseline holds counts: no value is negative.\<close>

definition baseline_ok :: "(string \<rightharpoonup> int) \<Rightarrow> bool" where
  "baseline_ok baseline_data \<longleftrightarrow> (\<forall>engine n. baseline_data engine = Some n \<longrightarrow> 0 \<le> n)"

text \<open>The entry of \<open>new_files_found\<close> for one engine.\<close>

definition found_count :: "filesystem \<Rightarrow> (string \<rightharpoonup> int) \<Rightarrow> string \<times> string \<Rightarrow> string \<times> int" where
  "found_count fs B = (\<lambda>(e, d).
     (e, if path_exists fs d \<and> md_count fs d > baseline_get B e
         then md_count fs d - baseline_get B e else 0))"

text \<open>A file system and a baseline on which the properties below are evaluated.\<close>

definition sample_fs :: filesystem where
  "sample_fs path =
     (if path = ''insight_reports'' then Directory [''a.md'', ''b.md'', ''notes.txt'']
      else if path = ''media_reports'' then Directory [''m.md'']
      else if path = ''query_reports'' then Directory [''q1.md'', ''q2.md'']
      else if path = ''logs/forum.log'' then RegularFile
      else Missing)"

definition sample_baseline :: "string \<rightharpoonup> int" where
  "sample_baseline = [''insight'' \<mapsto> 1, ''media'' \<mapsto> 0, ''query'' \<mapsto> 1]"

text \<open>A baseline that the insight directory has not passed yet.\<close>

definition later_baseline :: "string \<rightharpoonup> int" where
  "later_baseline = [''insight'' \<mapsto> 2, ''media'' \<mapsto> 0, ''query'' \<mapsto> 1]"

text \<open>Times of the last change, and the same with a report of the media engine that has
  been removed between the listing of its directory and the reading of its time.\<close>

definition sample_mtime :: "string \<Rightarrow> os_error + int" where
  "sample_mtime path =
     (if path = ''insight_reports/a.md'' then Inr 100
      else if path = ''insight_reports/b.md'' then Inr 250
      else if path = ''media_reports/m.md'' then Inr 180
      else if path = ''query_reports/q1.md'' then Inr 300
      else if path = ''query_reports/q2.md'' then Inr 300
      else Inl FileNotFoundError)"

definition vanished_mtime :: "string \<Rightarrow> os_error + int" where
  "vanished_mtime path =
     (if path = ''media_reports/m.md'' then Inl FileNotFoundError else sample_mtime path)"

section \<open>System start guard (app.py)\<close>

text \<open>
  The module-level dictionary \<open>system_state\<close> holds the two flags.  Every access goes
  through \<open>system_state_lock\<close>, so each of the functions below is one atomic step.
\<close>

record system_state =
  started :: bool
  starting :: bool

definition initial_system_state :: system_state where
  "initial_system_state = \<lparr>started = False, starting = False\<rparr>"

text \<open>\<open>_prepare_system_start\<close>: returns the pair \<open>(allowed, message)\<close> and the new flags.\<close>

definition prepare_system_start :: "system_state \<Rightarrow> (bool \<times> string option) \<times> system_state" where
  "prepare_system_start s =
     (if started s then ((False, Some ''System already started''), s)
      else if starting s then ((False, Some ''System is starting''), s)
      else ((True, None), s\<lparr>starting := True\<rparr>))"

text \<open>\<open>_set_system_state(started=..., starting=...)\<close>; \<open>None\<close> leaves a flag as it is.\<close>

definition set_system_state :: "bool option \<Rightarrow> bool option \<Rightarrow> system_state \<Rightarrow> system_state" where
  "set_system_state st sg s =
     (let s1 = (case st of None \<Rightarrow> s | Some b \<Rightarrow> s\<lparr>started := b\<rparr>)
      in (case sg of None \<Rightarrow> s1 | Some b \<Rightarrow> s1\<lparr>starting := b\<rparr>))"

text \<open>
  \<open>start_system\<close> is run by one thread per request.  Between its atomic steps other
  requests may run, so a request is a small state machine:
  \<^item> \<open>Arrive\<close>: a new request calls \<open>_prepare_system_start\<close>; it is either rejected
    (HTTP 400 with the message) or starts \<open>initialize_system_components\<close>;
  \<^item> \<open>Cleanup i\<close>: the initialization of request \<open>i\<close> has collected errors and calls
    \<open>cleanup_processes()\<close>, which ends with \<open>_set_system_state(started=False, starting=False)\<close>;
    the request is still inside \<open>initialize_system_components\<close>;
  \<^item> \<open>InitResult i ok\<close>: the initialization of request \<open>i\<close> has returned \<open>True\<close> (\<open>ok\<close>), or
    it has raised an exception derived from \<open>Exception\<close> or, after its cleanup, returned
    \<open>False\<close> (\<open>\<not> ok\<close>); the request calls \<open>_set_system_state(started=ok)\<close>;
  \<^item> \<open>InitAborted i\<close>: an exception not derived from \<open>Exception\<close> leaves the initialization
    of request \<open>i\<close>; no \<open>except\<close> clause runs, only the \<open>finally\<close> clause is left;
  \<^item> \<open>Finish i\<close>: the \<open>finally\<close> clause of request \<open>i\<close> calls
    \<open>_set_system_state(starting=False)\<close>.

  \<open>cleanup_processes\<close> is also registered with \<open>atexit\<close> and called when the server loop has
  been interrupted; both happen when the server has stopped taking requests.
\<close>

datatype phase =
    Rejected string
  | Initializing
  | CleanedUp
  | Finalizing bool
  | Responded bool

datatype event = Arrive | Cleanup nat | InitResult nat bool | InitAborted nat | Finish nat

record server =
  flags :: system_state
  requests :: "phase list"

definition initial_server :: server where
  "initial_server = \<lparr>flags = initial_system_state, requests = []\<rparr>"

fun server_step :: "server \<Rightarrow> event \<Rightarrow> server" where
  "server_step sv Arrive =
     (case prepare_system_start (flags sv) of
        ((True, _), s') \<Rightarrow> \<lparr>flags = s', requests = requests sv @ [Initializing]\<rparr>
      | ((False, msg), s') \<Rightarrow>
          \<lparr>flags = s', requests = requests sv @ [Rejected (case msg of None \<Rightarrow> [] | Some m \<Rightarrow> m)]\<rparr>)"
| "server_step sv (Cleanup i) =
     (if i < length (requests sv) \<and> requests sv ! i = Initializing
      then \<lparr>flags = set_system_state (Some False) (Some False) (flags sv),
            requests = (requests sv)[i := CleanedUp]\<rparr>
      else sv)"
| "server_step sv (InitResult i ok) =
     (if i < length (requests sv) \<and>
         (requests sv ! i = Initializing \<or> requests sv ! i = CleanedUp \<and> \<not> ok)
      then \<lparr>flags = set_system_state (Some ok) None (flags sv),
            requests = (requests sv)[i := Finalizing ok]\<rparr>
      else sv)"
| "server_step sv (InitAborted i) =
     (if i < length (requests sv) \<and>
         (requests sv ! i = Initializing \<or> requests sv ! i = CleanedUp)
      then sv\<lparr>requests := (requests sv)[i := Finalizing False]\<rparr>
      else sv)"
| "server_step sv (Finish i) =
     (if i < length (requests sv)
      then (case requests sv ! i of
              Finalizing ok \<Rightarrow>
                \<lparr>flags = set_system_state None (Some False) (flags sv),
                 requests = (requests sv)[i := Responded ok]\<rparr>
            | _ \<Rightarrow> sv)
      else sv)"

definition server_run :: "server \<Rightarrow> event list \<Rightarrow> server" where
  "server_run = foldl server_step"

text \<open>A request holds the start grant from its successful guard step until its \<open>finally\<close>.\<close>

fun holds_grant :: "phase \<Rightarrow> bool" where
  "holds_grant Initializing = True"
| "holds_grant CleanedUp = True"
| "holds_grant (Finalizing _) = True"
| "holds_grant _ = False"

definition grants :: "server \<Rightarrow> nat" where
  "grants sv = length (filter holds_grant (requests sv))"

definition grant_inv :: "server \<Rightarrow> bool" where
  "grant_inv sv \<longleftrightarrow> grants sv = (if starting (flags sv) then 1 else 0)"

text \<open>No initialization of the run collects errors: \<open>cleanup_processes\<close> is not called.\<close>

fun is_cleanup :: "event \<Rightarrow> bool" where
  "is_cleanup (Cleanup i) = True"
| "is_cleanup _ = False"

definition no_cleanup :: "event list \<Rightarrow> bool" where
  "no_cleanup evs \<longleftrightarrow> \<not> list_ex is_cleanup evs"

section \<open>The graceful retry envelope (utils/retry_helper.py)\<close>

text \<open>
  \<open>RetryConfig\<close>.  \<open>retry_on_exceptions\<close> is the test \<open>isinstance(e, config.retry_on_exceptions)\<close>.
  The three delay parameters \<open>initial_delay\<close>, \<open>backoff_factor\<close> and \<open>max_delay\<close> are
  floating-point numbers that are only used between two attempts; see \<open>pause\<close> below.
\<close>

record retry_config =
  max_retries :: int
  retry_on_exceptions :: "py_exception \<Rightarrow> bool"

text \<open>The default tuple of \<open>RetryConfig\<close> holds \<open>Exception\<close> itself.\<close>

definition SEARCH_API_RETRY_CONFIG :: retry_config where
  "SEARCH_API_RETRY_CONFIG = \<lparr>max_retries = 5, retry_on_exceptions = is_Exception\<rparr>"

text \<open>
  One call of the wrapped function returns a value or raises.  The function may behave
  differently from call to call, so the operation is given by the outcome of its \<open>n\<close>-th call.
\<close>

datatype 'a outcome = Returns 'a | Raises py_exception

text \<open>
  Between a failed attempt and the next one the handler computes
  \<open>delay = min(config.initial_delay * (config.backoff_factor ** attempt), config.max_delay)\<close>,
  logs it and calls \<open>time.sleep(delay)\<close>.  These statements run inside the \<open>except\<close> clause,
  so an exception they raise is caught by no clause of the \<open>try\<close> and leaves the wrapper:
  \<open>OverflowError\<close> when the power or the sleep overflows, \<open>ValueError\<close> when the delay is
  negative.  Floating-point arithmetic is not modelled: \<open>pause attempt\<close> is the outcome of
  these statements after the failed attempt number \<open>attempt\<close>, \<open>None\<close> when they complete and
  \<open>Some e\<close> when they raise \<open>e\<close>.  The logging calls of the other branches, which format the
  exception and the default value, are taken to complete.

  The loop \<open>for attempt in range(config.max_retries + 1)\<close> of the wrapper, from attempt
  \<open>attempt\<close> with \<open>remaining\<close> iterations to go.  The result is the value the wrapper returns
  (\<open>Inr\<close>) or the exception that leaves it (\<open>Inl\<close>), together with the number of calls of the
  wrapped function that were made.
\<close>

fun graceful_loop ::
  "retry_config \<Rightarrow> 'a \<Rightarrow> (nat \<Rightarrow> 'a outcome) \<Rightarrow> (nat \<Rightarrow> py_exception option)
     \<Rightarrow> nat \<Rightarrow> nat \<Rightarrow> (py_exception + 'a) \<times> nat" where
  "graceful_loop config default_return func pause attempt 0 = (Inr default_return, attempt)"
| "graceful_loop config default_return func pause attempt (Suc remaining) =
     (case func attempt of
        Returns result \<Rightarrow> (Inr result, Suc attempt)
      | Raises e \<Rightarrow>
          if retry_on_exceptions config e then
            (if int attempt = max_retries config then (Inr default_return, Suc attempt)
             else (case pause attempt of
                     Some e' \<Rightarrow> (Inl e', Suc attempt)
                   | None \<Rightarrow>
                       graceful_loop config default_return func pause (Suc attempt) remaining))
          else if is_Exception e then (Inr default_return, Suc attempt)
          else (Inl e, Suc attempt))"

definition with_graceful_retry ::
  "retry_config \<Rightarrow> 'a \<Rightarrow> (nat \<Rightarrow> 'a outcome) \<Rightarrow> (nat \<Rightarrow> py_exception option)
     \<Rightarrow> (py_exception + 'a) \<times> nat" where
  "with_graceful_retry config default_return func pause =
     graceful_loop config default_return func pause 0 (nat (max_retries config + 1))"

text \<open>The first \<open>k\<close> calls all raise an exception the configuration retries on.\<close>

definition retryable_until :: "retry_config \<Rightarrow> (nat \<Rightarrow> 'a outcome) \<Rightarrow> nat \<Rightarrow> bool" where
  "retryable_until config func k \<longleftrightarrow>
     (\<forall>j<k. \<exists>e. func j = Raises e \<and> retry_on_exceptions config e)"

text \<open>Every exception the operation can raise is retried on or derives from \<open>Exception\<close>.\<close>

definition raises_only_errors :: "retry_config \<Rightarrow> (nat \<Rightarrow> 'a outcome) \<Rightarrow> bool" where
  "raises_only_errors config func \<longleftrightarrow>
     (\<forall>j e. func j = Raises e \<longrightarrow> retry_on_exceptions config e \<or> is_Exception e)"

text \<open>The pauses after the first \<open>k\<close> failed attempts all complete.\<close>

definition pauses_until :: "(nat \<Rightarrow> py_exception option) \<Rightarrow> nat \<Rightarrow> bool" where
  "pauses_until pause k \<longleftrightarrow> (\<forall>j<k. pause j = None)"

text \<open>
  Operations, configurations and pauses on which the properties below are evaluated.  With
  the delays of \<open>SEARCH_API_RETRY_CONFIG\<close> (2.0, 1.6, 25.0) every pause completes; with
  \<open>initial_delay = -1.0\<close> the first one calls \<open>time.sleep(-1.0)\<close>, which raises \<open>ValueError\<close>.
\<close>

definition sleeps :: "nat \<Rightarrow> py_exception option" where
  "sleeps attempt = None"

definition negative_delay :: "nat \<Rightarrow> py_exception option" where
  "negative_delay attempt = Some (ExceptionInstance ''ValueError'')"


definition network_only :: retry_config where
  "network_only =
     \<lparr>max_retries = 3,
      retry_on_exceptions = (\<lambda>e. e = ExceptionInstance ''ConnectionError'')\<rparr>"

definition always_times_out :: "nat \<Rightarrow> int outcome" where
  "always_times_out n = Raises (ExceptionInstance ''TimeoutError'')"

definition fails_then_value_error :: "nat \<Rightarrow> int outcome" where
  "fails_then_value_error n =
     (if n = 0 then Raises (ExceptionInstance ''ConnectionError'')
      else Raises (ExceptionInstance ''ValueError''))"

definition succeeds_third_time :: "nat \<Rightarrow> int outcome" where
  "succeeds_third_time n =
     (if n < 2 then Raises (ExceptionInstance ''ConnectionError'') else Returns 42)"

definition interrupted :: "nat \<Rightarrow> int outcome" where
  "interrupted n = Raises KeyboardInterrupt"

section \<open>The research state machine (InsightEngine/agent.py, MediaEngine/nodes/summary_node.py)\<close>

text \<open>
  Modelled from the spec: the state classes \<open>State\<close>, \<open>Paragraph\<close> and \<open>Research\<close> of the
  engines are not among the source files.  After the spec's data model a \<open>Research\<close> holds
  the latest summary, the reflection counter and the append-only search history, and a fresh
  one has the counter 0; \<open>increment_reflection\<close> adds one to the counter,
  \<open>add_search_results\<close> appends to the history, \<open>mark_completed\<close> sets the completion flag.
\<close>

record research =
  latest_summary :: string
  reflection_count :: nat
  search_history :: "(string \<times> string list) list"
  is_completed :: bool

record report_paragraph =
  paragraph_title :: string
  paragraph_content :: string
  paragraph_research :: research

text \<open>Modelled from the spec: \<open>Research.increment_reflection\<close>, which is not among the
  source files; each call raises the reflection counter by one.\<close>

definition increment_reflection :: "research \<Rightarrow> research" where
  "increment_reflection r = r\<lparr>reflection_count := reflection_count r + 1\<rparr>"

text \<open>Modelled from the spec: \<open>Research.add_search_results\<close>, which is not among the
  source files; the search history is append-only.\<close>

definition add_search_results :: "string \<Rightarrow> string list \<Rightarrow> research \<Rightarrow> research" where
  "add_search_results search_query search_results r =
     r\<lparr>search_history := search_history r @ [(search_query, search_results)]\<rparr>"

text \<open>Modelled from the spec: \<open>Research.mark_completed\<close>, which is not among the source
  files; it sets the completion flag.\<close>

definition mark_completed :: "research \<Rightarrow> research" where
  "mark_completed r = r\<lparr>is_completed := True\<rparr>"

text \<open>
  The nodes call a language model and the search tools, which are parameters of the model.
  Each gets the number of node calls made so far, since the same input can be answered
  differently from call to call, and returns its result or the exception it raises.  The
  choice of the search tool and of its parameters, which the agent makes from the node's
  output, is part of \<open>run_search\<close>.
\<close>

record nodes =
  first_search_run :: "nat \<Rightarrow> string \<times> string \<Rightarrow> py_exception + string"
  reflection_run :: "nat \<Rightarrow> string \<times> string \<times> string \<Rightarrow> py_exception + string"
  run_search :: "nat \<Rightarrow> string \<Rightarrow> py_exception + string list"
  first_summary_run :: "nat \<Rightarrow> string \<times> string \<times> string \<times> string list \<Rightarrow> py_exception + string"
  reflection_summary_run ::
    "nat \<Rightarrow> string \<times> string \<times> string \<times> string list \<times> string \<Rightarrow> py_exception + string"

text \<open>The calls of the nodes, by paragraph index, in the order they are made.\<close>

datatype node_call = FirstSearch nat | FirstSummary nat | Reflection nat | ReflectionSummary nat

record agent =
  paragraphs :: "report_paragraph list"
  calls :: "node_call list"

text \<open>\<open>state.paragraphs[paragraph_index].research\<close> is replaced by \<open>f\<close> of it.\<close>

definition update_research :: "nat \<Rightarrow> (research \<Rightarrow> research) \<Rightarrow> report_paragraph list \<Rightarrow> report_paragraph list" where
  "update_research i f ps = ps[i := (ps ! i)\<lparr>paragraph_research := f (paragraph_research (ps ! i))\<rparr>]"

text \<open>
  \<open>FirstSummaryNode.mutate_state\<close> and \<open>ReflectionSummaryNode.mutate_state\<close>, given the outcome
  of the node's \<open>run\<close>.  The index is a Python integer; outside \<open>0 <= paragraph_index < len\<close>
  the node raises \<open>ValueError\<close>.
\<close>

definition first_summary_mutate_state ::
  "py_exception + string \<Rightarrow> report_paragraph list \<Rightarrow> int \<Rightarrow> py_exception + report_paragraph list" where
  "first_summary_mutate_state outcome ps paragraph_index =
     (case outcome of
        Inl e \<Rightarrow> Inl e
      | Inr summary \<Rightarrow>
          if 0 \<le> paragraph_index \<and> paragraph_index < int (length ps)
          then Inr (update_research (nat paragraph_index) (\<lambda>r. r\<lparr>latest_summary := summary\<rparr>) ps)
          else Inl (ExceptionInstance ''ValueError''))"

definition reflection_summary_mutate_state ::
  "py_exception + string \<Rightarrow> report_paragraph list \<Rightarrow> int \<Rightarrow> py_exception + report_paragraph list" where
  "reflection_summary_mutate_state outcome ps paragraph_index =
     (case outcome of
        Inl e \<Rightarrow> Inl e
      | Inr updated_summary \<Rightarrow>
          if 0 \<le> paragraph_index \<and> paragraph_index < int (length ps)
          then Inr (update_research (nat paragraph_index)
                      (\<lambda>r. increment_reflection (r\<lparr>latest_summary := updated_summary\<rparr>)) ps)
          else Inl (ExceptionInstance ''ValueError''))"

text \<open>\<open>_initial_search_and_summary\<close>\<close>

definition initial_search_and_summary :: "nodes \<Rightarrow> nat \<Rightarrow> agent \<Rightarrow> py_exception + agent" where
  "initial_search_and_summary nd i a =
     (if \<not> i < length (paragraphs a) then Inl (ExceptionInstance ''IndexError'')
      else
        (let p = paragraphs a ! i
         in case first_search_run nd (length (calls a)) (paragraph_title p, paragraph_content p) of
              Inl e \<Rightarrow> Inl e
            | Inr search_query \<Rightarrow>
                (let a = a\<lparr>calls := calls a @ [FirstSearch i]\<rparr>
                 in case run_search nd (length (calls a)) search_query of
                      Inl e \<Rightarrow> Inl e
                    | Inr search_results \<Rightarrow>
                        (let ps = update_research i
                                    (add_search_results search_query search_results) (paragraphs a);
                             outcome = first_summary_run nd (length (calls a))
                                         (paragraph_title p, paragraph_content p, search_query,
                                          search_results)
                         in case first_summary_mutate_state outcome ps (int i) of
                              Inl e \<Rightarrow> Inl e
                            | Inr ps' \<Rightarrow>
                                Inr (a\<lparr>paragraphs := ps', calls := calls a @ [FirstSummary i]\<rparr>)))))"

text \<open>One round of the loop of \<open>_reflection_loop\<close>.\<close>

definition reflection_round :: "nodes \<Rightarrow> nat \<Rightarrow> agent \<Rightarrow> py_exception + agent" where
  "reflection_round nd i a =
     (let p = paragraphs a ! i
      in case reflection_run nd (length (calls a))
                (paragraph_title p, paragraph_content p, latest_summary (paragraph_research p)) of
           Inl e \<Rightarrow> Inl e
         | Inr search_query \<Rightarrow>
             (let a = a\<lparr>calls := calls a @ [Reflection i]\<rparr>
              in case run_search nd (length (calls a)) search_query of
                   Inl e \<Rightarrow> Inl e
                 | Inr search_results \<Rightarrow>
                     (let ps = update_research i
                                 (add_search_results search_query search_results) (paragraphs a);
                          outcome = reflection_summary_run nd (length (calls a))
                                      (paragraph_title p, paragraph_content p, search_query,
                                       search_results,
                                       latest_summary (paragraph_research (ps ! i)))
                      in case reflection_summary_mutate_state outcome ps (int i) of
                           Inl e \<Rightarrow> Inl e
                         | Inr ps' \<Rightarrow>
                             Inr (a\<lparr>paragraphs := ps',
                                    calls := calls a @ [ReflectionSummary i]\<rparr>))))"

text \<open>\<open>for reflection_i in range(self.config.MAX_REFLECTIONS)\<close>, with the rounds that remain.\<close>

fun reflection_rounds :: "nodes \<Rightarrow> nat \<Rightarrow> nat \<Rightarrow> agent \<Rightarrow> py_exception + agent" where
  "reflection_rounds nd i 0 a = Inr a"
| "reflection_rounds nd i (Suc remaining) a =
     (case reflection_round nd i a of
        Inl e \<Rightarrow> Inl e
      | Inr a' \<Rightarrow> reflection_rounds nd i remaining a')"

definition reflection_loop :: "nodes \<Rightarrow> int \<Rightarrow> nat \<Rightarrow> agent \<Rightarrow> py_exception + agent" where
  "reflection_loop nd MAX_REFLECTIONS i a =
     (if \<not> i < length (paragraphs a) then Inl (ExceptionInstance ''IndexError'')
      else reflection_rounds nd i (nat MAX_REFLECTIONS) a)"

text \<open>\<open>_process_paragraphs\<close>: the loop over \<open>range(total_paragraphs)\<close>.\<close>

fun process_indices :: "nodes \<Rightarrow> int \<Rightarrow> nat list \<Rightarrow> agent \<Rightarrow> py_exception + agent" where
  "process_indices nd MAX_REFLECTIONS [] a = Inr a"
| "process_indices nd MAX_REFLECTIONS (i # rest) a =
     (case initial_search_and_summary nd i a of
        Inl e \<Rightarrow> Inl e
      | Inr a1 \<Rightarrow>
          (case reflection_loop nd MAX_REFLECTIONS i a1 of
             Inl e \<Rightarrow> Inl e
           | Inr a2 \<Rightarrow>
               process_indices nd MAX_REFLECTIONS rest
                 (a2\<lparr>paragraphs := update_research i mark_completed (paragraphs a2)\<rparr>)))"

definition process_paragraphs :: "nodes \<Rightarrow> int \<Rightarrow> agent \<Rightarrow> py_exception + agent" where
  "process_paragraphs nd MAX_REFLECTIONS a =
     process_indices nd MAX_REFLECTIONS [0..<length (paragraphs a)] a"

text \<open>The state after the report structure has been planned: every research is fresh and
  no node of the paragraph loop has been called.\<close>

definition planned :: "agent \<Rightarrow> bool" where
  "planned a \<longleftrightarrow> calls a = [] \<and> (\<forall>p\<in>set (paragraphs a). reflection_count (paragraph_research p) = 0)"

text \<open>The reflection counter of paragraph \<open>j\<close>.\<close>

definition reflections_of :: "agent \<Rightarrow> nat \<Rightarrow> nat" where
  "reflections_of a j = reflection_count (paragraph_research (paragraphs a ! j))"

text \<open>What a step leaves of the agent: the number of paragraphs, and for every paragraph \<open>j\<close>
  the counter and the numbers of reflection calls, each raised by \<open>d j\<close>.\<close>

definition advanced :: "agent \<Rightarrow> agent \<Rightarrow> (nat \<Rightarrow> nat) \<Rightarrow> bool" where
  "advanced a a' d \<longleftrightarrow>
     length (paragraphs a') = length (paragraphs a) \<and>
     (\<forall>j. count_list (calls a') (Reflection j) = count_list (calls a) (Reflection j) + d j) \<and>
     (\<forall>j. count_list (calls a') (ReflectionSummary j)
            = count_list (calls a) (ReflectionSummary j) + d j) \<and>
     (\<forall>j<length (paragraphs a). reflections_of a' j = reflections_of a j + d j)"

text \<open>Nodes that always answer, and a planned report of two paragraphs, for the evaluation
  of the properties.\<close>

definition steady_nodes :: nodes where
  "steady_nodes =
     \<lparr>first_search_run = (\<lambda>n x. Inr ''first query''),
      reflection_run = (\<lambda>n x. Inr ''gap query''),
      run_search = (\<lambda>n q. Inr [''result'']),
      first_summary_run = (\<lambda>n x. Inr ''summary''),
      reflection_summary_run = (\<lambda>n x. Inr ''refined summary'')\<rparr>"

text \<open>Modelled from the spec: the research of a paragraph as the planner creates it, with
  no summary, no search and the counter 0.\<close>

definition fresh_research :: research where
  "fresh_research =
     \<lparr>latest_summary = [], reflection_count = 0, search_history = [], is_completed = False\<rparr>"

definition two_paragraphs :: agent where
  "two_paragraphs =
     \<lparr>paragraphs =
        [\<lparr>paragraph_title = ''Background'', paragraph_content = ''what happened'',
          paragraph_research = fresh_research\<rparr>,
         \<lparr>paragraph_title = ''Reactions'', paragraph_content = ''who said what'',
          paragraph_research = fresh_research\<rparr>],
      calls = []\<rparr>"

section \<open>Verified properties\<close>

subsection \<open>Strings\<close>

text \<open>A text strips to nothing exactly when it is all white space.\<close>

lemma strip_Nil_iff: "strip s = [] \<longleftrightarrow> (\<forall>c\<in>set s. isspace c)"
proof
  assume "strip s = []"
  then have "dropWhile isspace (rev (dropWhile isspace s)) = []"
    by (simp add: strip_def)
  then have "\<forall>c\<in>set (dropWhile isspace s). isspace c"
    by (simp add: dropWhile_eq_Nil_conv)
  then have "dropWhile isspace s = []"
    by (metis hd_dropWhile list.set_sel(1))
  then show "\<forall>c\<in>set s. isspace c"
    by (simp add: dropWhile_eq_Nil_conv)
next
  assume "\<forall>c\<in>set s. isspace c"
  then have d: "dropWhile isspace s = []"
    by (simp add: dropWhile_eq_Nil_conv)
  show "strip s = []"
    unfolding strip_def d by simp
qed

subsection \<open>JSON repair returns only texts that parse\<close>

text \<open>
  Claim C10, as amended.  For every input text on which \<open>json.loads\<close> returns a value or
  raises \<open>json.JSONDecodeError\<close>, \<open>fix_json_string\<close> returns \<open>None\<close> or a text that the parser
  accepts.  A text that already parses is returned unchanged; otherwise the repaired text is
  returned exactly when the parser accepts it, and \<open>None\<close> when the parser rejects it or raises
  on it.  When the parser raises another exception on the input itself, that exception
  leaves the function.
\<close>

theorem fix_json_string_parses:
  "((\<forall>e. loads s \<noteq> LoadsRaises e) \<longrightarrow>
      fix_json_string loads s = Inr None \<or>
      (\<exists>t v. fix_json_string loads s = Inr (Some t) \<and> loads t = Loaded v)) \<and>
   (loads s = Loaded v \<longrightarrow> fix_json_string loads s = Inr (Some s)) \<and>
   (loads s = JSONDecodeError \<longrightarrow>
      fix_json_string loads s
        = Inr (case loads (fix_scan False False s) of
                 Loaded _ \<Rightarrow> Some (fix_scan False False s)
               | _ \<Rightarrow> None)) \<and>
   (loads s = LoadsRaises e \<longrightarrow> fix_json_string loads s = Inl e)"
  by (cases "loads s"; cases "loads (fix_scan False False s)")
    (simp_all add: fix_json_string_def Let_def)

theorem fix_json_string_parses_witness:
  "sample_loads ''{}'' = Loaded (JObj []) \<and>
   fix_json_string sample_loads ''{}'' = Inr (Some ''{}'') \<and>
   sample_loads ''{\"a\": \"x \"y\" z\"}'' = JSONDecodeError \<and>
   fix_json_string sample_loads ''{\"a\": \"x \"y\" z\"}''
     = Inr (Some (''{\"a\": \"x '' @ [CHR 0x5C] @ ''\"y'' @ [CHR 0x5C] @ ''\" z\"}'')) \<and>
   sample_loads ''{\"a\": '' = JSONDecodeError \<and>
   fix_json_string sample_loads ''{\"a\": '' = Inr None \<and>
   nesting_loads deep_text = LoadsRaises RecursionError \<and>
   fix_json_string nesting_loads deep_text = Inl RecursionError"
proof -
  have deep: "nesting_loads deep_text = LoadsRaises RecursionError"
    by (simp add: nesting_loads_def)
  have a: "sample_loads ''{}'' = Loaded (JObj [])"
    and b: "sample_loads ''{\"a\": \"x \"y\" z\"}'' = JSONDecodeError"
    and c: "sample_loads ''{\"a\": '' = JSONDecodeError"
    and r: "fix_scan False False ''{\"a\": \"x \"y\" z\"}''
              = ''{\"a\": \"x '' @ [CHR 0x5C] @ ''\"y'' @ [CHR 0x5C] @ ''\" z\"}''"
    and r': "sample_loads (fix_scan False False ''{\"a\": '') = JSONDecodeError"
    by (simp_all add: sample_loads_def isspace_def)
  have r'': "sample_loads (''{\"a\": \"x '' @ [CHR 0x5C] @ ''\"y'' @ [CHR 0x5C] @ ''\" z\"}'')
      = Loaded (JObj [(''a'', JStr ''x \"y\" z'')])"
    by (simp add: sample_loads_def)
  show ?thesis
    using fix_json_string_parses [where loads = sample_loads and s = "''{}''" and v = "JObj []"]
      fix_json_string_parses [where loads = sample_loads and s = "''{\"a\": \"x \"y\" z\"}''"]
      fix_json_string_parses [where loads = sample_loads and s = "''{\"a\": ''"]
      fix_json_string_parses [where loads = nesting_loads and s = deep_text
        and e = RecursionError]
      deep a b c r' r''
    unfolding r by simp
qed

text \<open>
  The claim as it was written fails on a text on which the parser raises an exception other
  than \<open>json.JSONDecodeError\<close>: the first \<open>try\<close> does not catch it.  On the text of 100000
  opening brackets \<open>json.loads\<close> raises \<open>RecursionError\<close>, and \<open>fix_json_string\<close> returns
  neither \<open>None\<close> nor a text: the exception leaves it.
\<close>

theorem fix_json_string_raises_counterexample:
  "length deep_text = 100000 \<and>
   nesting_loads deep_text = LoadsRaises RecursionError \<and>
   fix_json_string nesting_loads deep_text = Inl RecursionError \<and>
   fix_json_string nesting_loads deep_text \<noteq> Inr None \<and>
   fix_json_string nesting_loads deep_text \<noteq> Inr (Some deep_text)"
  by (simp add: nesting_loads_def fix_json_string_def deep_text_def)

subsection \<open>The ERROR block filter\<close>

lemma rmatch_bar_first: "rmatch (Lit ''|'' # as) s = Some r \<Longrightarrow> CHR ''|'' \<in> set s"
  by (cases s) (auto split: if_splits)

lemma re_search_bar_first: "re_search (Lit ''|'' # as) s = Some r \<Longrightarrow> CHR ''|'' \<in> set s"
proof (induction s)
  case Nil
  then show ?case by (auto split: option.splits)
next
  case (Cons c cs)
  show ?case
  proof (cases "rmatch (Lit ''|'' # as) (c # cs)")
    case None
    with Cons show ?thesis by auto
  next
    case (Some a)
    then show ?thesis by (rule rmatch_bar_first)
  qed
qed

lemma level_not_blank: "get_log_level line = Some lv \<Longrightarrow> strip line \<noteq> []"
proof -
  assume "get_log_level line = Some lv"
  then obtain r where "re_search level_re line = Some r"
    by (auto simp: get_log_level_def split: option.splits)
  then have "CHR ''|'' \<in> set line"
    unfolding level_re_def by (rule re_search_bar_first)
  moreover have "\<not> isspace (CHR ''|'')"
    by (simp add: isspace_def)
  ultimately show ?thesis
    by (auto simp: strip_Nil_iff)
qed

lemma process_line_error:
  "get_log_level line = Some ''ERROR'' \<Longrightarrow>
   process_line loads dumps st line = (drop_capture (st\<lparr>in_error_block := True\<rparr>), Inr [])"
  using level_not_blank [of line "''ERROR''"] by (simp add: process_line_def)

lemma process_line_in_error_block:
  assumes "in_error_block st" and "\<not> capturing_json st"
    and "get_log_level line \<noteq> Some ''INFO''"
  shows "process_line loads dumps st line = (st, Inr [])"
proof (cases "strip line = []")
  case True
  then show ?thesis by (simp add: process_line_def)
next
  case False
  show ?thesis
  proof (cases "get_log_level line = Some ''ERROR''")
    case True
    have "st\<lparr>in_error_block := True\<rparr> = st" using assms(1) by simp
    then show ?thesis using True False assms by (simp add: process_line_def drop_capture_def)
  next
    case no_error: False
    then show ?thesis using False assms by (simp add: process_line_def drop_capture_def)
  qed
qed

lemma process_lines_in_error_block:
  assumes "in_error_block st" and "\<not> capturing_json st"
    and "\<forall>l\<in>set lines. get_log_level l \<noteq> Some ''INFO''"
  shows "process_lines loads dumps st lines captured = (st, Inr captured)"
  using assms(3)
proof (induction lines)
  case Nil
  then show ?case by simp
next
  case (Cons l ls)
  then have "process_line loads dumps st l = (st, Inr [])"
    using process_line_in_error_block [OF assms(1,2)] by simp
  with Cons show ?case by simp
qed

lemma process_line_flag_other:
  "get_log_level line \<noteq> Some ''ERROR'' \<Longrightarrow> get_log_level line \<noteq> Some ''INFO'' \<Longrightarrow>
   in_error_block (fst (process_line loads dumps st line)) = in_error_block st"
  by (auto simp: process_line_def Let_def drop_capture_def record_content_def reset_capture_def
      split: option.splits json.splits)

lemma process_line_flag_info:
  "get_log_level line = Some ''INFO'' \<Longrightarrow>
   \<not> in_error_block (fst (process_line loads dumps st line))"
  using level_not_blank [of line "''INFO''"]
  by (auto simp: process_line_def Let_def drop_capture_def record_content_def reset_capture_def
      split: option.splits json.splits)

text \<open>
  Claim C1.  A line whose detected level is ERROR sets \<open>in_error_block\<close> and discards a
  capture in flight; from there every line is skipped, and nothing is appended to the captured
  contents, as long as no line with detected level INFO comes: the lines \<open>err # mid\<close> leave
  the captured contents as they were, whatever \<open>mid\<close> holds (a JSON object included).  A line
  with detected level INFO clears the flag; a line with another level, or none, preserves it.
\<close>

theorem error_block_filter:
  "(get_log_level err = Some ''ERROR'' \<and> (\<forall>l\<in>set mid. get_log_level l \<noteq> Some ''INFO'') \<longrightarrow>
      process_lines loads dumps st (err # mid) captured
        = (drop_capture (st\<lparr>in_error_block := True\<rparr>), Inr captured) \<and>
      in_error_block (fst (process_lines loads dumps st (err # mid) captured)) \<and>
      \<not> capturing_json (fst (process_lines loads dumps st (err # mid) captured)) \<and>
      (capturing_json st \<longrightarrow>
         json_buffer (fst (process_lines loads dumps st (err # mid) captured)) = []) \<and>
      process_lines_for_json loads dumps st (err # mid)
        = (drop_capture (st\<lparr>in_error_block := True\<rparr>), Inr [])) \<and>
   (get_log_level line = Some ''INFO'' \<longrightarrow>
      \<not> in_error_block (fst (process_line loads dumps st line))) \<and>
   (get_log_level line \<noteq> Some ''ERROR'' \<and> get_log_level line \<noteq> Some ''INFO'' \<longrightarrow>
      in_error_block (fst (process_line loads dumps st line)) = in_error_block st)"
proof -
  have main: "process_lines loads dumps st (err # mid) c
        = (drop_capture (st\<lparr>in_error_block := True\<rparr>), Inr c)"
    if e: "get_log_level err = Some ''ERROR''"
      and m: "\<forall>l\<in>set mid. get_log_level l \<noteq> Some ''INFO''" for c
  proof -
    let ?s = "drop_capture (st\<lparr>in_error_block := True\<rparr>)"
    have "in_error_block ?s" and "\<not> capturing_json ?s"
      by (simp_all add: drop_capture_def)
    then have "process_lines loads dumps ?s mid c = (?s, Inr c)"
      using m by (rule process_lines_in_error_block)
    then show ?thesis using process_line_error [OF e] by simp
  qed
  have flags: "in_error_block (drop_capture (st\<lparr>in_error_block := True\<rparr>))"
    "\<not> capturing_json (drop_capture (st\<lparr>in_error_block := True\<rparr>))"
    "capturing_json st \<longrightarrow> json_buffer (drop_capture (st\<lparr>in_error_block := True\<rparr>)) = []"
    by (simp_all add: drop_capture_def)
  have first: "get_log_level err = Some ''ERROR'' \<and> (\<forall>l\<in>set mid. get_log_level l \<noteq> Some ''INFO'') \<longrightarrow>
      process_lines loads dumps st (err # mid) captured
        = (drop_capture (st\<lparr>in_error_block := True\<rparr>), Inr captured) \<and>
      in_error_block (fst (process_lines loads dumps st (err # mid) captured)) \<and>
      \<not> capturing_json (fst (process_lines loads dumps st (err # mid) captured)) \<and>
      (capturing_json st \<longrightarrow>
         json_buffer (fst (process_lines loads dumps st (err # mid) captured)) = []) \<and>
      process_lines_for_json loads dumps st (err # mid)
        = (drop_capture (st\<lparr>in_error_block := True\<rparr>), Inr [])"
  proof (intro impI, elim conjE)
    assume e: "get_log_level err = Some ''ERROR''"
      and m: "\<forall>l\<in>set mid. get_log_level l \<noteq> Some ''INFO''"
    show "process_lines loads dumps st (err # mid) captured
        = (drop_capture (st\<lparr>in_error_block := True\<rparr>), Inr captured) \<and>
      in_error_block (fst (process_lines loads dumps st (err # mid) captured)) \<and>
      \<not> capturing_json (fst (process_lines loads dumps st (err # mid) captured)) \<and>
      (capturing_json st \<longrightarrow>
         json_buffer (fst (process_lines loads dumps st (err # mid) captured)) = []) \<and>
      process_lines_for_json loads dumps st (err # mid)
        = (drop_capture (st\<lparr>in_error_block := True\<rparr>), Inr [])"
      unfolding process_lines_for_json_def main [OF e m] fst_conv
      using flags by simp
  qed
  show ?thesis
    using first process_line_flag_info [of line loads dumps st]
      process_line_flag_other [of line loads dumps st]
    by blast
qed

theorem error_block_filter_witness:
  "get_log_level err_line = Some ''ERROR'' \<and>
   get_log_level warn_json_line = Some ''WARNING'' \<and>
   get_log_level info_json_line = Some ''INFO'' \<and>
   process_lines_for_json sample_loads sample_dumps initial_tailer [warn_json_line]
     = (initial_tailer\<lparr>json_start_line := Some warn_json_line\<rparr>, Inr [''Cleaned output: {}'']) \<and>
   process_lines_for_json sample_loads sample_dumps initial_tailer [err_line, warn_json_line]
     = (initial_tailer\<lparr>in_error_block := True\<rparr>, Inr []) \<and>
   \<not> in_error_block (fst (process_line sample_loads sample_dumps
        (initial_tailer\<lparr>in_error_block := True\<rparr>) info_json_line)) \<and>
   in_error_block (fst (process_line sample_loads sample_dumps
        (initial_tailer\<lparr>in_error_block := True\<rparr>) warn_json_line))"
proof -
  have e: "get_log_level err_line = Some ''ERROR''" by code_simp
  have w: "get_log_level warn_json_line = Some ''WARNING''" by code_simp
  have i: "get_log_level info_json_line = Some ''INFO''" by code_simp
  have m: "\<forall>l\<in>set [warn_json_line]. get_log_level l \<noteq> Some ''INFO''"
    using w by simp
  have plain: "process_lines_for_json sample_loads sample_dumps initial_tailer [warn_json_line]
     = (initial_tailer\<lparr>json_start_line := Some warn_json_line\<rparr>, Inr [''Cleaned output: {}''])"
    by code_simp
  have w2: "get_log_level warn_json_line \<noteq> Some ''ERROR'' \<and> get_log_level warn_json_line \<noteq> Some ''INFO''"
    using w by simp
  from error_block_filter [of err_line "[warn_json_line]" sample_loads sample_dumps
      initial_tailer "[]" info_json_line] e m
  have a: "process_lines_for_json sample_loads sample_dumps initial_tailer [err_line, warn_json_line]
     = (drop_capture (initial_tailer\<lparr>in_error_block := True\<rparr>), Inr [])"
    by blast
  from error_block_filter [of err_line "[]" sample_loads sample_dumps
      "initial_tailer\<lparr>in_error_block := True\<rparr>" "[]" info_json_line] i
  have b: "\<not> in_error_block (fst (process_line sample_loads sample_dumps
        (initial_tailer\<lparr>in_error_block := True\<rparr>) info_json_line))"
    by blast
  from error_block_filter [of err_line "[]" sample_loads sample_dumps
      "initial_tailer\<lparr>in_error_block := True\<rparr>" "[]" warn_json_line] w2
  have c: "in_error_block (fst (process_line sample_loads sample_dumps
        (initial_tailer\<lparr>in_error_block := True\<rparr>) warn_json_line))"
    by simp
  have d: "drop_capture (initial_tailer\<lparr>in_error_block := True\<rparr>) = initial_tailer\<lparr>in_error_block := True\<rparr>"
    by (simp add: drop_capture_def initial_tailer_def)
  show ?thesis using e w i plain a b c d by simp
qed

subsection \<open>Reassembling a multi-line JSON block\<close>

lemma startswith_append: "startswith s p \<Longrightarrow> \<exists>r. s = p @ r"
  by (induction s p rule: startswith.induct) auto

lemma find_Some_split:
  "find s p = Some n \<Longrightarrow> n \<le> length s \<and> startswith (drop n s) p"
proof (induction s arbitrary: n)
  case Nil
  then show ?case by (auto split: if_splits)
next
  case (Cons c cs)
  show ?case
  proof (cases "startswith (c # cs) p")
    case True
    with Cons.prems show ?thesis by simp
  next
    case False
    with Cons.prems obtain m where m: "find cs p = Some m" "n = Suc m" by auto
    from Cons.IH [OF m(1)] m(2) show ?thesis by simp
  qed
qed

lemma contains_find: "contains s p \<Longrightarrow> \<exists>n. find s p = Some n"
  by (induction s) auto

lemma contains_set: "contains s p \<Longrightarrow> set p \<subseteq> set s"
proof -
  assume "contains s p"
  then obtain n where "find s p = Some n" using contains_find by blast
  then have "startswith (drop n s) p" using find_Some_split by blast
  then obtain r where "drop n s = p @ r" using startswith_append by blast
  then have "set p \<subseteq> set (drop n s)" by simp
  then show ?thesis using set_drop_subset by fastforce
qed

lemma list_find_append:
  "List.find P (xs @ ys) = (case List.find P xs of None \<Rightarrow> List.find P ys | Some x \<Rightarrow> Some x)"
  by (induction xs) auto

text \<open>The last character of a text that is not white space.\<close>

lemma endswith_strip_char:
  "\<not> isspace c \<Longrightarrow>
   endswith (strip x) [c] \<longleftrightarrow> List.find (\<lambda>c. \<not> isspace c) (rev x) = Some c"
proof -
  assume c: "\<not> isspace c"
  have sw_drop: "startswith (dropWhile isspace zs) [c]
      \<longleftrightarrow> List.find (\<lambda>c. \<not> isspace c) zs = Some c" for zs
    using c by (induction zs) auto
  have inner: "List.find (\<lambda>c. \<not> isspace c) (rev (dropWhile isspace x))
      = List.find (\<lambda>c. \<not> isspace c) (rev x)"
  proof (induction x)
    case Nil
    then show ?case by simp
  next
    case (Cons a x)
    show ?case
    proof (cases "isspace a")
      case True
      have "List.find (\<lambda>c. \<not> isspace c) (rev x @ [a]) = List.find (\<lambda>c. \<not> isspace c) (rev x)"
        using True by (simp add: list_find_append split: option.splits)
      then show ?thesis using True Cons by simp
    next
      case False
      then show ?thesis by simp
    qed
  qed
  have "endswith (strip x) [c]
      \<longleftrightarrow> startswith (dropWhile isspace (rev (dropWhile isspace x))) [c]"
    by (simp add: endswith_def strip_def)
  also have "\<dots> \<longleftrightarrow> List.find (\<lambda>c. \<not> isspace c) (rev (dropWhile isspace x)) = Some c"
    by (rule sw_drop)
  finally show ?thesis using inner by simp
qed

lemma endswith_strip_suffix:
  assumes "\<not> isspace c" and "\<exists>d\<in>set y. \<not> isspace d"
  shows "endswith (strip (u @ y)) [c] \<longleftrightarrow> endswith (strip y) [c]"
proof -
  from assms(2) obtain d where "List.find (\<lambda>c. \<not> isspace c) (rev y) = Some d"
    by (cases "List.find (\<lambda>c. \<not> isspace c) (rev y)") (auto simp: find_None_iff)
  then have "List.find (\<lambda>c. \<not> isspace c) (rev (u @ y)) = List.find (\<lambda>c. \<not> isspace c) (rev y)"
    by (simp add: list_find_append)
  then show ?thesis using endswith_strip_char [OF assms(1)] by simp
qed


lemma parse_or_repair_eq:
  "parse_or_repair loads dumps text
     = map_option (format_json_content dumps) (parsed_or_repaired loads text)"
  by (auto simp: parse_or_repair_def parsed_or_repaired_def fix_json_string_def Let_def
      split: loads_outcome.splits)

lemma brace_not_space: "\<not> isspace (CHR ''{'')" "\<not> isspace (CHR ''}'')"
  by (simp_all add: isspace_def)

lemma json_start_not_blank: "is_json_start_line line \<Longrightarrow> strip line \<noteq> []"
proof -
  assume "is_json_start_line line"
  then have "set ''Cleaned output: {'' \<subseteq> set line"
    unfolding is_json_start_line_def by (rule contains_set)
  then have "CHR ''{'' \<in> set line" by simp
  then show ?thesis using brace_not_space(1) by (auto simp: strip_Nil_iff)
qed

lemma json_part_suffix:
  assumes "is_json_start_line line"
  shows "\<exists>u r. line = u @ json_part line \<and> json_part line = CHR ''{'' # r"
proof -
  from assms obtain n where n: "find line ''Cleaned output: {'' = Some n"
    unfolding is_json_start_line_def using contains_find by blast
  then have "startswith (drop n line) ''Cleaned output: {''" and le: "n \<le> length line"
    using find_Some_split by blast+
  then obtain r where r: "drop n line = ''Cleaned output: {'' @ r"
    using startswith_append by blast
  have jp: "json_part line = drop (length ''Cleaned output: '') (drop n line)"
    using n by (simp add: json_part_def add.commute)
  have "json_part line = CHR ''{'' # r" unfolding jp r by simp
  moreover have "line = take (n + length ''Cleaned output: '') line @ json_part line"
    using n by (simp add: json_part_def)
  ultimately show ?thesis by blast
qed

lemma extract_json_content_block:
  assumes "is_json_start_line first_line" and "\<not> endswith (strip first_line) ''}''"
  shows "extract_json_content loads dumps (first_line # later)
     = map_option (format_json_content dumps)
         (parsed_or_repaired loads
            (strip (json_part first_line @ concat (map strip_log_prefix later))))"
proof -
  from assms(1) obtain n where n: "find first_line ''Cleaned output: {'' = Some n"
    unfolding is_json_start_line_def using contains_find by blast
  from json_part_suffix [OF assms(1)] obtain u r
    where u: "first_line = u @ json_part first_line" and r: "json_part first_line = CHR ''{'' # r"
    by blast
  have "\<exists>d\<in>set (json_part first_line). \<not> isspace d"
    using r brace_not_space(1) by auto
  from endswith_strip_suffix [OF brace_not_space(2) this, of u] u assms(2)
  have "\<not> endswith (strip (json_part first_line)) ''}''" by simp
  moreover have "json_part first_line = drop (n + length ''Cleaned output: '') first_line"
    using n by (simp add: json_part_def)
  ultimately show ?thesis
    using assms(1) n
    by (simp add: extract_json_content_def is_json_start_line_def Let_def parse_or_repair_eq)
qed

lemma process_line_start:
  assumes "is_target_log_line line" and "is_json_start_line line"
    and "\<not> endswith (strip line) ''}''"
    and "\<not> in_error_block st \<or> get_log_level line = Some ''INFO''"
  shows "process_line loads dumps st line = (capturing st line [], Inr [])"
proof -
  have nb: "strip line \<noteq> []" using assms(2) by (rule json_start_not_blank)
  have ne: "get_log_level line \<noteq> Some ''ERROR''"
    using assms(1) by (auto simp: is_target_log_line_def split: if_splits)
  show ?thesis
  proof (cases "get_log_level line = Some ''INFO''")
    case True
    then show ?thesis using nb ne assms
      by (simp add: process_line_def Let_def capturing_def)
  next
    case False
    then have "\<not> in_error_block st" using assms(4) by simp
    then have "st\<lparr>in_error_block := False\<rparr> = st" by simp
    then have "capturing st line [] = st\<lparr>capturing_json := True, json_buffer := [line],
                            json_start_line := Some line\<rparr>"
      by (metis capturing_def)
    then show ?thesis using nb ne assms False \<open>\<not> in_error_block st\<close>
      by (simp add: process_line_def Let_def)
  qed
qed

lemma capturing_fields [simp]:
  "in_error_block (capturing st first_line later) = False"
  "capturing_json (capturing st first_line later) = True"
  "json_buffer (capturing st first_line later) = first_line # later"
  by (simp_all add: capturing_def)

lemma capturing_append:
  "(capturing st first_line later)\<lparr>json_buffer := json_buffer (capturing st first_line later) @ [line]\<rparr>
     = capturing st first_line (later @ [line])"
  by (simp add: capturing_def)

lemma capturing_info:
  "(capturing st first_line later)\<lparr>in_error_block := False\<rparr> = capturing st first_line later"
  by (simp add: capturing_def)

lemma process_line_continuation:
  assumes "continuation_line line"
  shows "process_line loads dumps (capturing st first_line later) line
     = (if is_end_marker line
        then record_content (capturing st first_line (later @ [line]))
               (extract_json_content loads dumps (first_line # later @ [line]))
        else (capturing st first_line (later @ [line]), Inr []))"
proof -
  let ?s = "capturing st first_line later"
  have s: "(if get_log_level line = Some ''INFO'' then ?s\<lparr>in_error_block := False\<rparr> else ?s) = ?s"
    by (simp add: capturing_info)
  have t: "(is_target_log_line line \<and> is_json_start_line line) = False"
    "(is_target_log_line line \<and> is_valuable_content line) = False"
    using assms by (auto simp: continuation_line_def)
  have n: "(strip line = []) = False" "(get_log_level line = Some ''ERROR'') = False"
    using assms by (auto simp: continuation_line_def)
  have b: "?s\<lparr>json_buffer := json_buffer ?s @ [line]\<rparr> = capturing st first_line (later @ [line])"
    by (rule capturing_append)
  have j: "json_buffer (capturing st first_line (later @ [line])) = first_line # later @ [line]"
    by simp
  show ?thesis
    unfolding process_line_def Let_def s t n b j
    by simp
qed

lemma process_lines_continuations:
  assumes "\<forall>l\<in>set mid. continuation_line l \<and> \<not> is_end_marker l"
  shows "process_lines loads dumps (capturing st first_line later) mid captured
     = (capturing st first_line (later @ mid), Inr captured)"
  using assms
proof (induction mid arbitrary: later)
  case Nil
  then show ?case by simp
next
  case (Cons l mid)
  then have l: "continuation_line l" "\<not> is_end_marker l" by simp_all
  have "process_line loads dumps (capturing st first_line later) l
      = (capturing st first_line (later @ [l]), Inr [])"
    using process_line_continuation [OF l(1)] l(2) by simp
  moreover have "process_lines loads dumps (capturing st first_line (later @ [l])) mid captured
      = (capturing st first_line ((later @ [l]) @ mid), Inr captured)"
    using Cons.prems by (intro Cons.IH) simp
  ultimately show ?case by simp
qed

lemma process_lines_snoc:
  "process_lines loads dumps st xs captured = (st', Inr c) \<Longrightarrow>
   process_lines loads dumps st (xs @ [l]) captured
     = (case process_line loads dumps st' l of
          (st'', Inl e) \<Rightarrow> (st'', Inl e)
        | (st'', Inr new) \<Rightarrow> (st'', Inr (c @ new)))"
  by (induction xs arbitrary: st captured) (auto split: prod.splits sum.splits)


lemma format_json_content_truthy: "truthy (format_json_content dumps json_obj)"
  by (auto simp: format_json_content_def Let_def split: json.splits option.splits)

text \<open>
  Claim C2, as amended.  A block starts with a line of a summary node that holds
  \<open>Cleaned output: {\<close>, does not end with a closing brace, and is met outside an ERROR block
  (or has level INFO).  While every later line is appended to the buffer (it is not blank, not
  of level ERROR, and not itself published as a line of a summary node), up to the first line
  whose content without its log prefix is exactly \<open>}\<close> or \<open>] }\<close>, the tailer buffers the
  lines; at that line it strips the prefixes, concatenates, and parses the text, repairing it
  when the parse fails.  When parse and repair both fail nothing is captured; when they give
  an object whose content is a string, exactly that one content is captured.  In both cases
  the capture state is reset.
\<close>

theorem json_block_reassembly:
  assumes "is_target_log_line first_line" and "is_json_start_line first_line"
    and "\<not> endswith (strip first_line) ''}''"
    and "\<not> in_error_block st \<or> get_log_level first_line = Some ''INFO''"
    and "\<forall>l\<in>set mid. continuation_line l \<and> \<not> is_end_marker l"
    and "continuation_line end_line" and "is_end_marker end_line"
  shows "(parsed_or_repaired loads (block_text first_line (mid @ [end_line])) = None \<longrightarrow>
           process_lines_for_json loads dumps st (first_line # mid @ [end_line])
             = (st\<lparr>in_error_block := False, capturing_json := False, json_buffer := [],
                   json_start_line := Some first_line\<rparr>, Inr [])) \<and>
         (parsed_or_repaired loads (block_text first_line (mid @ [end_line])) = Some json_obj \<and>
          format_json_content dumps json_obj = JStr s \<longrightarrow>
           process_lines_for_json loads dumps st (first_line # mid @ [end_line])
             = (st\<lparr>in_error_block := False, capturing_json := False, json_buffer := [],
                   json_start_line := Some first_line\<rparr>, Inr [clean_content_tags s]))"
proof -
  let ?c = "capturing st first_line (mid @ [end_line])"
  let ?content = "extract_json_content loads dumps (first_line # mid @ [end_line])"
  have first: "process_line loads dumps st first_line = (capturing st first_line [], Inr [])"
    using assms(1-4) by (rule process_line_start)
  have middle: "process_lines loads dumps (capturing st first_line []) mid []
      = (capturing st first_line mid, Inr [])"
    using process_lines_continuations [OF assms(5), of loads dumps st first_line "[]" "[]"]
    by simp
  have final: "process_line loads dumps (capturing st first_line mid) end_line
      = record_content ?c ?content"
    using process_line_continuation [OF assms(6), of loads dumps st first_line mid] assms(7)
    by simp
  have "process_lines loads dumps (capturing st first_line []) (mid @ [end_line]) []
      = (case record_content ?c ?content of
           (st'', Inl e) \<Rightarrow> (st'', Inl e)
         | (st'', Inr new) \<Rightarrow> (st'', Inr ([] @ new)))"
    using process_lines_snoc [OF middle, of end_line] final by simp
  then have run: "process_lines_for_json loads dumps st (first_line # mid @ [end_line])
      = (case record_content ?c ?content of
           (st'', Inl e) \<Rightarrow> (st'', Inl e)
         | (st'', Inr new) \<Rightarrow> (st'', Inr new))"
    using first by (auto simp: process_lines_for_json_def split: prod.splits sum.splits)
  have content: "?content = map_option (format_json_content dumps)
      (parsed_or_repaired loads (block_text first_line (mid @ [end_line])))"
    unfolding block_text_def using assms(2,3) by (rule extract_json_content_block)
  have reset: "reset_capture ?c = st\<lparr>in_error_block := False, capturing_json := False,
      json_buffer := [], json_start_line := Some first_line\<rparr>"
    by (simp add: reset_capture_def capturing_def)
  have none: "record_content ?c None = (reset_capture ?c, Inr [])"
    by (simp add: record_content_def)
  have some: "record_content ?c (Some (JStr s)) = (reset_capture ?c, Inr [clean_content_tags s])"
    if "truthy (JStr s)" for s
    using that by (simp add: record_content_def)
  show ?thesis
  proof (intro conjI impI)
    assume "parsed_or_repaired loads (block_text first_line (mid @ [end_line])) = None"
    then show "process_lines_for_json loads dumps st (first_line # mid @ [end_line])
             = (st\<lparr>in_error_block := False, capturing_json := False, json_buffer := [],
                   json_start_line := Some first_line\<rparr>, Inr [])"
      unfolding run content using none reset by simp
  next
    assume a: "parsed_or_repaired loads (block_text first_line (mid @ [end_line])) = Some json_obj \<and>
          format_json_content dumps json_obj = JStr s"
    then have "truthy (JStr s)" using format_json_content_truthy [of dumps json_obj] by simp
    from some [OF this] a
    show "process_lines_for_json loads dumps st (first_line # mid @ [end_line])
             = (st\<lparr>in_error_block := False, capturing_json := False, json_buffer := [],
                   json_start_line := Some first_line\<rparr>, Inr [clean_content_tags s])"
      unfolding run content using reset by simp
  qed
qed

theorem json_block_reassembly_witness:
  "is_target_log_line start_line \<and> is_json_start_line start_line \<and>
   continuation_line plain_member_line \<and> \<not> is_end_marker plain_member_line \<and>
   continuation_line plain_end_line \<and> is_end_marker plain_end_line \<and>
   block_text start_line [plain_member_line, plain_end_line]
     = ''{\"updated_paragraph_latest_state\": \"alpha beta\"}'' \<and>
   snd (process_lines_for_json sample_loads sample_dumps initial_tailer
     [start_line, plain_member_line, plain_end_line]) = Inr [''alpha beta''] \<and>
   block_text start_line [plain_garbage_line, plain_end_line] = ''{oops}'' \<and>
   snd (process_lines_for_json sample_loads sample_dumps initial_tailer
     [start_line, plain_garbage_line, plain_end_line]) = Inr []"
proof -
  have s: "is_target_log_line start_line" "is_json_start_line start_line"
    "\<not> endswith (strip start_line) ''}''"
    "\<not> in_error_block initial_tailer \<or> get_log_level start_line = Some ''INFO''"
    by code_simp+
  have m: "continuation_line plain_member_line" "\<not> is_end_marker plain_member_line"
    by code_simp+
  have g: "continuation_line plain_garbage_line" "\<not> is_end_marker plain_garbage_line"
    by code_simp+
  have e: "continuation_line plain_end_line" "is_end_marker plain_end_line"
    by code_simp+
  have t1: "block_text start_line [plain_member_line, plain_end_line]
     = ''{\"updated_paragraph_latest_state\": \"alpha beta\"}''"
    by code_simp
  have t2: "block_text start_line [plain_garbage_line, plain_end_line] = ''{oops}''"
    by code_simp
  have p1: "parsed_or_repaired sample_loads ''{\"updated_paragraph_latest_state\": \"alpha beta\"}''
     = Some (JObj [(''updated_paragraph_latest_state'', JStr ''alpha beta'')])"
    by (simp add: parsed_or_repaired_def sample_loads_def)
  have f1: "format_json_content sample_dumps
      (JObj [(''updated_paragraph_latest_state'', JStr ''alpha beta'')]) = JStr ''alpha beta''"
    by (simp add: format_json_content_def)
  have p2: "parsed_or_repaired sample_loads ''{oops}'' = None"
    by code_simp
  have c: "clean_content_tags ''alpha beta'' = ''alpha beta''"
    by code_simp
  have mm: "\<forall>l\<in>set [plain_member_line]. continuation_line l \<and> \<not> is_end_marker l"
    using m by simp
  have gg: "\<forall>l\<in>set [plain_garbage_line]. continuation_line l \<and> \<not> is_end_marker l"
    using g by simp
  from json_block_reassembly [OF s mm e, where loads = sample_loads and dumps = sample_dumps
      and json_obj = "JObj [(''updated_paragraph_latest_state'', JStr ''alpha beta'')]"
      and s = "''alpha beta''"]
  have r1: "snd (process_lines_for_json sample_loads sample_dumps initial_tailer
     [start_line, plain_member_line, plain_end_line]) = Inr [''alpha beta'']"
    using p1 f1 c t1 by simp
  from json_block_reassembly [OF s gg e, where loads = sample_loads and dumps = sample_dumps
      and json_obj = JNull and s = "[]"]
  have r2: "snd (process_lines_for_json sample_loads sample_dumps initial_tailer
     [start_line, plain_garbage_line, plain_end_line]) = Inr []"
    using p2 t2 by simp
  show ?thesis using s m e t1 t2 r1 r2 by simp
qed

text \<open>
  The claim as it was written fails when the continuation lines carry the log prefix of the
  summary node itself.  Such a line is a target line; with 30 characters of content or more
  it is published on its own and never reaches the buffer.  Here the member line of the
  object is captured as raw text, the buffer holds the start and the end line only, and the
  block parses to the empty object: two contents are captured, and neither is the state
  \<open>alpha beta\<close>.
\<close>

theorem json_block_stamped_lines_counterexample:
  "is_target_log_line start_line \<and> is_json_start_line start_line \<and>
   strip_log_prefix stamped_member_line = ''\"updated_paragraph_latest_state\": \"alpha beta\"'' \<and>
   strip_log_prefix stamped_end_line = ''}'' \<and>
   snd (process_lines_for_json sample_loads sample_dumps initial_tailer
     [start_line, stamped_member_line, stamped_end_line])
     = Inr [''\"updated_paragraph_latest_state\": \"alpha beta\"'', ''Cleaned output: {}'']"
  by code_simp

subsection \<open>Forum log lines\<close>

lemma isdigit_digit_char: "n < 10 \<Longrightarrow> isdigit (digit_char n)"
proof -
  assume "n < 10"
  then have "n \<in> {0, 1, 2, 3, 4, 5, 6, 7, 8, 9}" by auto
  then show ?thesis
    by (auto simp: isdigit_def digit_char_def)
qed

lemma line_break_digit_char: "n < 10 \<Longrightarrow> \<not> line_break (digit_char n)"
proof -
  assume "n < 10"
  then have "n \<in> {0, 1, 2, 3, 4, 5, 6, 7, 8, 9}" by auto
  then show ?thesis
    by (auto simp: line_break_def digit_char_def)
qed

lemma two_digits_props:
  "n < 100 \<Longrightarrow> length (two_digits n) = 2 \<and> list_all isdigit (two_digits n)
     \<and> \<not> list_ex line_break (two_digits n)"
  by (simp add: two_digits_def isdigit_digit_char line_break_digit_char)

lemma escape_no_line_break: "\<not> list_ex line_break (escape_newlines content)"
proof -
  have a: "CHR 0x0A \<notin> set (replace_char (CHR 0x0A) [CHR 0x5C, CHR ''n''] s)" for s
    by (induction s) (auto simp: replace_char_def)
  have b: "CHR 0x0D \<notin> set (replace_char (CHR 0x0D) [CHR 0x5C, CHR ''r''] s)" for s
    by (induction s) (auto simp: replace_char_def)
  have c: "CHR 0x0A \<notin> set s \<Longrightarrow> CHR 0x0A \<notin> set (replace_char (CHR 0x0D) [CHR 0x5C, CHR ''r''] s)" for s
    by (induction s) (auto simp: replace_char_def)
  show ?thesis
    using a b c by (auto simp: escape_newlines_def list_ex_iff line_break_def)
qed

text \<open>
  Claim C5.  With a source tag (one that holds no line break, as the tags \<open>SYSTEM\<close>,
  \<open>HOST\<close>, \<open>INSIGHT\<close>, \<open>MEDIA\<close> and \<open>QUERY\<close> of the callers), \<open>write_to_forum_log\<close> appends
  \<open>[HH:MM:SS] [SOURCE] body\<close> and one line feed, where \<open>HH\<close>, \<open>MM\<close> and \<open>SS\<close> are two digits
  each and \<open>body\<close> is the content with every line feed and carriage return replaced by the
  two characters \<open>\n\<close> and \<open>\r\<close>: neither the body nor the line holds a line break, so
  the record is exactly one physical line.
\<close>

theorem write_to_forum_log_one_line:
  assumes "valid_time now" and "src \<noteq> []" and "\<not> list_ex line_break src"
  shows "write_to_forum_log old_text now content (Some src)
           = old_text @ (''['' @ two_digits (hour now) @ '':'' @ two_digits (minute now) @ '':''
                @ two_digits (second now) @ ''] ['' @ src @ ''] '' @ escape_newlines content)
               @ [CHR 0x0A]
         \<and> list_all isdigit (two_digits (hour now) @ two_digits (minute now) @ two_digits (second now))
         \<and> length (two_digits (hour now)) = 2 \<and> length (two_digits (minute now)) = 2
         \<and> length (two_digits (second now)) = 2
         \<and> \<not> list_ex line_break (escape_newlines content)
         \<and> \<not> list_ex line_break
               (''['' @ two_digits (hour now) @ '':'' @ two_digits (minute now) @ '':''
                @ two_digits (second now) @ ''] ['' @ src @ ''] '' @ escape_newlines content)"
proof -
  have h: "hour now < 100" "minute now < 100" "second now < 100"
    using assms(1) by (simp_all add: valid_time_def)
  note d = two_digits_props [OF h(1)] two_digits_props [OF h(2)] two_digits_props [OF h(3)]
  have eq: "write_to_forum_log old_text now content (Some src)
           = old_text @ (''['' @ two_digits (hour now) @ '':'' @ two_digits (minute now) @ '':''
                @ two_digits (second now) @ ''] ['' @ src @ ''] '' @ escape_newlines content)
               @ [CHR 0x0A]"
    using assms(2) by (simp add: write_to_forum_log_def strftime_HMS_def)
  have nb: "\<not> list_ex line_break
               (''['' @ two_digits (hour now) @ '':'' @ two_digits (minute now) @ '':''
                @ two_digits (second now) @ ''] ['' @ src @ ''] '' @ escape_newlines content)"
    using d assms(3) escape_no_line_break [of content]
    by (simp add: line_break_def)
  show ?thesis using eq nb d escape_no_line_break [of content] by simp
qed


theorem write_to_forum_log_one_line_witness:
  "valid_time sample_time \<and> \<not> list_ex line_break ''INSIGHT'' \<and>
   list_ex line_break sample_content \<and>
   write_to_forum_log [] sample_time sample_content (Some ''INSIGHT'')
     = ''[09:05:30] [INSIGHT] alpha'' @ [CHR 0x5C] @ ''nbeta'' @ [CHR 0x5C] @ ''r'' @ [CHR 0x0A] \<and>
   \<not> list_ex line_break
        (''[09:05:30] [INSIGHT] alpha'' @ [CHR 0x5C] @ ''nbeta'' @ [CHR 0x5C] @ ''r'') \<and>
   rmatch forum_line_re
        (''[09:05:30] [INSIGHT] alpha'' @ [CHR 0x5C] @ ''nbeta'' @ [CHR 0x5C] @ ''r'')
     = Some ([], [])"
proof -
  have v: "valid_time sample_time"
    by (simp add: valid_time_def sample_time_def)
  have s: "''INSIGHT'' \<noteq> []" "\<not> list_ex line_break ''INSIGHT''"
    by (simp_all add: line_break_def)
  have c: "list_ex line_break sample_content"
    by (simp add: line_break_def sample_content_def)
  have e: "escape_newlines sample_content = ''alpha'' @ [CHR 0x5C] @ ''nbeta'' @ [CHR 0x5C] @ ''r''"
    by (simp add: escape_newlines_def sample_content_def replace_char_def)
  have t: "two_digits (hour sample_time) = ''09''" "two_digits (minute sample_time) = ''05''"
    "two_digits (second sample_time) = ''30''"
    by (simp_all add: two_digits_def digit_char_def sample_time_def)
  have m: "rmatch forum_line_re
        (''[09:05:30] [INSIGHT] alpha'' @ [CHR 0x5C] @ ''nbeta'' @ [CHR 0x5C] @ ''r'')
     = Some ([], [])"
    by code_simp
  from write_to_forum_log_one_line [OF v s, of "[]" sample_content]
  show ?thesis using v s c m unfolding e t by simp
qed

subsection \<open>Truncation of a monitored log\<close>






subsection \<open>The moderator threshold\<close>

lemma trigger_host_speech_step:
  assumes "\<not> is_host_generating m" and "5 \<le> length (agent_speeches_buffer m)"
  shows "trigger_host_speech True host now m =
     (let recent = take 5 (agent_speeches_buffer m);
          answer = host (length (host_calls m)) recent
      in if succeeded answer
         then (m\<lparr>host_calls := host_calls m @ [recent],
                 forum_log := write_to_forum_log (forum_log m) now (speech_of answer) (Some ''HOST''),
                 agent_speeches_buffer := drop 5 (agent_speeches_buffer m)\<rparr>, None)
         else (case uncaught answer of
                 None \<Rightarrow> (m\<lparr>host_calls := host_calls m @ [recent]\<rparr>, None)
               | Some e \<Rightarrow>
                   (m\<lparr>host_calls := host_calls m @ [recent], is_host_generating := True\<rparr>,
                    Some e)))"
proof -
  have m: "m\<lparr>is_host_generating := False\<rparr> = m" using assms(1) by simp
  show ?thesis
  proof (cases "host (length (host_calls m)) (take 5 (agent_speeches_buffer m))")
    case (Speech s)
    then show ?thesis using assms
      by (cases "s = []") (simp_all add: trigger_host_speech_def Let_def)
  next
    case NoSpeech
    then show ?thesis using assms by (simp add: trigger_host_speech_def Let_def)
  next
    case (HostRaises e)
    then show ?thesis using assms
      by (cases "is_Exception e") (simp_all add: trigger_host_speech_def Let_def)
  qed
qed

lemma publish_counts:
  assumes "always_succeeds host" and "quiet m"
  shows "snd (publish True host m u) = None \<and> quiet (fst (publish True host m u)) \<and>
     5 * length (host_calls (fst (publish True host m u)))
        + length (agent_speeches_buffer (fst (publish True host m u)))
       = 5 * length (host_calls m) + length (agent_speeches_buffer m) + 1"
proof -
  let ?line = "''['' @ strftime_HMS (buffered_at u) @ ''] ['' @ source_tag (speaker u) @ ''] '' @ said u"
  let ?m1 = "m\<lparr>forum_log := write_to_forum_log (forum_log m) (written_at u) (said u)
                   (Some (source_tag (speaker u))),
               agent_speeches_buffer := agent_speeches_buffer m @ [?line]\<rparr>"
  have q: "\<not> is_host_generating ?m1" using assms(2) by (simp add: quiet_def)
  show ?thesis
  proof (cases "length (agent_speeches_buffer m) = 4")
    case True
    then have five: "5 \<le> length (agent_speeches_buffer ?m1)" by simp
    have s: "succeeded (host (length (host_calls ?m1)) (take 5 (agent_speeches_buffer ?m1)))"
      using assms(1) by (simp add: always_succeeds_def)
    have "publish True host m u = trigger_host_speech True host (host_at u) ?m1"
      using True assms(2) by (simp add: publish_def Let_def host_speech_threshold_def quiet_def)
    then show ?thesis
      using trigger_host_speech_step [OF q five, of host "host_at u"] s True assms(2)
      by (simp add: Let_def quiet_def)
  next
    case False
    then have "length (agent_speeches_buffer m) < 4" using assms(2) by (simp add: quiet_def)
    then show ?thesis
      using assms(2) by (simp add: publish_def Let_def host_speech_threshold_def quiet_def)
  qed
qed

lemma publish_all_counts:
  assumes "always_succeeds host" and "quiet m"
  shows "snd (publish_all True host m us) = None \<and> quiet (fst (publish_all True host m us)) \<and>
     5 * length (host_calls (fst (publish_all True host m us)))
        + length (agent_speeches_buffer (fst (publish_all True host m us)))
       = 5 * length (host_calls m) + length (agent_speeches_buffer m) + length us"
  using assms(2)
proof (induction us arbitrary: m)
  case Nil
  then show ?case by simp
next
  case (Cons u us)
  obtain m' r where p: "publish True host m u = (m', r)" by (cases "publish True host m u")
  from publish_counts [OF assms(1) Cons.prems, of u] p
  have r: "r = None" and q: "quiet m'"
    and c: "5 * length (host_calls m') + length (agent_speeches_buffer m')
       = 5 * length (host_calls m) + length (agent_speeches_buffer m) + 1"
    by simp_all
  from Cons.IH [OF q] c p r show ?case by simp
qed

text \<open>
  Claim C6, as amended.  With the host module available: when the buffer holds at least five
  utterances and no synthesis is in flight, \<open>_trigger_host_speech\<close> makes exactly one call of
  the host, on the first five buffered utterances.  When the call succeeds, those five and
  only those leave the buffer and the reply is appended to the forum log under \<open>HOST\<close>; when
  it fails, buffer and forum log stay as they were.  A failure with an exception that does
  not derive from \<open>Exception\<close> leaves the function with the synthesis flag still set; after
  every other call the flag is clear.  Twelve utterances published from the initial state,
  every synthesis succeeding, make exactly two calls and leave two utterances in the buffer.
\<close>

theorem moderator_threshold:
  "(\<not> is_host_generating m \<and> 5 \<le> length (agent_speeches_buffer m) \<longrightarrow>
      host_calls (fst (trigger_host_speech True host now m))
        = host_calls m @ [take 5 (agent_speeches_buffer m)] \<and>
      snd (trigger_host_speech True host now m)
        = uncaught (host (length (host_calls m)) (take 5 (agent_speeches_buffer m))) \<and>
      (is_host_generating (fst (trigger_host_speech True host now m))
         \<longleftrightarrow> uncaught (host (length (host_calls m)) (take 5 (agent_speeches_buffer m))) \<noteq> None) \<and>
      (succeeded (host (length (host_calls m)) (take 5 (agent_speeches_buffer m))) \<longrightarrow>
         agent_speeches_buffer (fst (trigger_host_speech True host now m))
           = drop 5 (agent_speeches_buffer m) \<and>
         forum_log (fst (trigger_host_speech True host now m))
           = write_to_forum_log (forum_log m) now
               (speech_of (host (length (host_calls m)) (take 5 (agent_speeches_buffer m))))
               (Some ''HOST'') \<and>
         snd (trigger_host_speech True host now m) = None) \<and>
      (\<not> succeeded (host (length (host_calls m)) (take 5 (agent_speeches_buffer m))) \<longrightarrow>
         agent_speeches_buffer (fst (trigger_host_speech True host now m))
           = agent_speeches_buffer m \<and>
         forum_log (fst (trigger_host_speech True host now m)) = forum_log m)) \<and>
   (always_succeeds host \<and> length us = 12 \<longrightarrow>
      snd (publish_all True host initial_moderator us) = None \<and>
      length (host_calls (fst (publish_all True host initial_moderator us))) = 2 \<and>
      length (agent_speeches_buffer (fst (publish_all True host initial_moderator us))) = 2)"
proof -
  let ?answer = "host (length (host_calls m)) (take 5 (agent_speeches_buffer m))"
  let ?r = "trigger_host_speech True host now m"
  have quiet0: "quiet initial_moderator"
    by (simp add: quiet_def initial_moderator_def)
  have twelve: "snd (publish_all True host initial_moderator us) = None \<and>
      length (host_calls (fst (publish_all True host initial_moderator us))) = 2 \<and>
      length (agent_speeches_buffer (fst (publish_all True host initial_moderator us))) = 2"
    if "always_succeeds host" and "length us = 12"
  proof -
    from publish_all_counts [OF that(1) quiet0, of us] that(2)
    have n: "snd (publish_all True host initial_moderator us) = None"
      and "length (agent_speeches_buffer (fst (publish_all True host initial_moderator us))) < 5"
      and "5 * length (host_calls (fst (publish_all True host initial_moderator us)))
        + length (agent_speeches_buffer (fst (publish_all True host initial_moderator us))) = 12"
      by (simp_all add: quiet_def initial_moderator_def)
    then have "length (host_calls (fst (publish_all True host initial_moderator us))) = 2 \<and>
      length (agent_speeches_buffer (fst (publish_all True host initial_moderator us))) = 2"
      by arith
    with n show ?thesis by simp
  qed
  have step: "host_calls (fst ?r) = host_calls m @ [take 5 (agent_speeches_buffer m)] \<and>
      snd ?r = uncaught ?answer \<and>
      (is_host_generating (fst ?r) \<longleftrightarrow> uncaught ?answer \<noteq> None) \<and>
      (succeeded ?answer \<longrightarrow>
         agent_speeches_buffer (fst ?r) = drop 5 (agent_speeches_buffer m) \<and>
         forum_log (fst ?r)
           = write_to_forum_log (forum_log m) now (speech_of ?answer) (Some ''HOST'') \<and>
         snd ?r = None) \<and>
      (\<not> succeeded ?answer \<longrightarrow>
         agent_speeches_buffer (fst ?r) = agent_speeches_buffer m \<and>
         forum_log (fst ?r) = forum_log m)"
    if a: "\<not> is_host_generating m" "5 \<le> length (agent_speeches_buffer m)"
  proof (cases "succeeded ?answer")
    case True
    then have "uncaught ?answer = None" by (cases ?answer) simp_all
    then show ?thesis
      unfolding trigger_host_speech_step [OF a] using a(1) True by (simp add: Let_def)
  next
    case False
    then show ?thesis
      unfolding trigger_host_speech_step [OF a] using a(1)
      by (cases "uncaught ?answer") (simp_all add: Let_def)
  qed
  show ?thesis using step twelve by blast
qed

theorem moderator_threshold_witness:
  "\<not> is_host_generating six_buffered \<and> 5 \<le> length (agent_speeches_buffer six_buffered) \<and>
   succeeded (agreeable_host 0 [''a'', ''b'', ''c'', ''d'', ''e'']) \<and>
   host_calls (fst (trigger_host_speech True agreeable_host sample_time six_buffered))
     = [[''a'', ''b'', ''c'', ''d'', ''e'']] \<and>
   agent_speeches_buffer (fst (trigger_host_speech True agreeable_host sample_time six_buffered))
     = [''f''] \<and>
   forum_log (fst (trigger_host_speech True agreeable_host sample_time six_buffered))
     = ''[09:05:30] [HOST] Summary'' @ [CHR 0x0A] \<and>
   \<not> succeeded (failing_host 0 [''a'', ''b'', ''c'', ''d'', ''e'']) \<and>
   trigger_host_speech True failing_host sample_time six_buffered
     = (six_buffered\<lparr>host_calls := [[''a'', ''b'', ''c'', ''d'', ''e'']]\<rparr>, None) \<and>
   snd (trigger_host_speech True interrupted_host sample_time six_buffered)
     = Some KeyboardInterrupt \<and>
   is_host_generating (fst (trigger_host_speech True interrupted_host sample_time six_buffered)) \<and>
   agent_speeches_buffer (fst (trigger_host_speech True interrupted_host sample_time six_buffered))
     = [''a'', ''b'', ''c'', ''d'', ''e'', ''f''] \<and>
   always_succeeds agreeable_host \<and> length twelve_utterances = 12 \<and>
   length (host_calls (fst (publish_all True agreeable_host initial_moderator twelve_utterances))) = 2 \<and>
   length (agent_speeches_buffer
     (fst (publish_all True agreeable_host initial_moderator twelve_utterances))) = 2"
proof -
  have a: "\<not> is_host_generating six_buffered \<and> 5 \<le> length (agent_speeches_buffer six_buffered)"
    by (simp add: six_buffered_def initial_moderator_def)
  have b: "always_succeeds agreeable_host \<and> length twelve_utterances = 12"
    by (simp add: always_succeeds_def agreeable_host_def twelve_utterances_def)
  have c: "host_calls six_buffered = []" "forum_log six_buffered = []"
    "take 5 (agent_speeches_buffer six_buffered) = [''a'', ''b'', ''c'', ''d'', ''e'']"
    "drop 5 (agent_speeches_buffer six_buffered) = [''f'']"
    "agent_speeches_buffer six_buffered = [''a'', ''b'', ''c'', ''d'', ''e'', ''f'']"
    by (simp_all add: six_buffered_def initial_moderator_def)
  have d: "succeeded (agreeable_host 0 [''a'', ''b'', ''c'', ''d'', ''e''])"
    "speech_of (agreeable_host 0 [''a'', ''b'', ''c'', ''d'', ''e'']) = ''Summary''"
    "\<not> succeeded (failing_host 0 [''a'', ''b'', ''c'', ''d'', ''e''])"
    "uncaught (failing_host 0 [''a'', ''b'', ''c'', ''d'', ''e'']) = None"
    "\<not> succeeded (interrupted_host 0 [''a'', ''b'', ''c'', ''d'', ''e''])"
    "uncaught (interrupted_host 0 [''a'', ''b'', ''c'', ''d'', ''e'']) = Some KeyboardInterrupt"
    by (simp_all add: agreeable_host_def failing_host_def interrupted_host_def)
  have e: "write_to_forum_log [] sample_time ''Summary'' (Some ''HOST'')
      = ''[09:05:30] [HOST] Summary'' @ [CHR 0x0A]"
    by (simp add: write_to_forum_log_def strftime_HMS_def two_digits_def digit_char_def
        sample_time_def escape_newlines_def replace_char_def)
  have f: "trigger_host_speech True failing_host sample_time six_buffered
     = (six_buffered\<lparr>host_calls := [[''a'', ''b'', ''c'', ''d'', ''e'']]\<rparr>, None)"
    by (simp add: trigger_host_speech_def failing_host_def six_buffered_def
        initial_moderator_def Let_def)
  from moderator_threshold [of six_buffered agreeable_host sample_time twelve_utterances]
    moderator_threshold [of six_buffered interrupted_host sample_time twelve_utterances] a b
  show ?thesis unfolding c using d e f by simp
qed

text \<open>
  The claim as it was written fails when the host module is not available
  (\<open>HOST_AVAILABLE = False\<close>, the monitor's pure monitoring mode): the buffer holds five
  utterances and more, no synthesis is in flight, and no synthesis is made.
\<close>

theorem moderator_unavailable_counterexample:
  "\<not> is_host_generating six_buffered \<and> 5 \<le> length (agent_speeches_buffer six_buffered) \<and>
   host_calls (fst (trigger_host_speech False agreeable_host sample_time six_buffered)) = [] \<and>
   snd (publish_all False agreeable_host initial_moderator twelve_utterances) = None \<and>
   length (host_calls (fst (publish_all False agreeable_host initial_moderator twelve_utterances))) = 0 \<and>
   length (agent_speeches_buffer
     (fst (publish_all False agreeable_host initial_moderator twelve_utterances))) = 12"
  by (simp add: six_buffered_def initial_moderator_def trigger_host_speech_def
      twelve_utterances_def publish_def Let_def host_speech_threshold_def eval_nat_numeral)

subsection \<open>The readiness gate\<close>

lemma check_loop_Inr:
  "\<forall>(e, d)\<in>set dirs. fs d \<noteq> RegularFile \<Longrightarrow>
   check_loop fs B dirs (c, f, a) =
     Inr (c @ map (\<lambda>(e, d). (e, md_count fs d)) dirs,
          f @ map (found_count fs B) dirs,
          a \<and> (\<forall>(e, d)\<in>set dirs. path_exists fs d \<and> md_count fs d > baseline_get B e))"
proof (induction dirs arbitrary: c f a)
  case Nil
  then show ?case by simp
next
  case (Cons p dirs)
  obtain e d where p: "p = (e, d)" by (cases p)
  have rest: "\<forall>(e, d)\<in>set dirs. fs d \<noteq> RegularFile" using Cons.prems by simp
  have nf: "fs d \<noteq> RegularFile" using Cons.prems p by simp
  show ?case
  proof (cases "fs d")
    case Missing
    then show ?thesis
      using Cons.IH [OF rest] p
      by (simp add: path_exists_def md_count_def found_count_def)
  next
    case RegularFile
    with nf show ?thesis by simp
  next
    case (Directory entries)
    then show ?thesis
      using Cons.IH [OF rest] p
      by (auto simp: path_exists_def md_count_def found_count_def list_md_files_def Let_def)
  qed
qed

lemma check_loop_Inl:
  "(e, d) \<in> set dirs \<Longrightarrow> fs d = RegularFile \<Longrightarrow>
   check_loop fs B dirs acc = Inl NotADirectoryError"
proof (induction dirs arbitrary: acc)
  case Nil
  then show ?case by simp
next
  case (Cons p dirs)
  obtain e' d' where p: "p = (e', d')" by (cases p)
  obtain c f a where acc: "acc = (c, f, a)" by (cases acc)
  show ?case
  proof (cases "fs d' = RegularFile")
    case True
    then show ?thesis using p acc by (simp add: path_exists_def list_md_files_def)
  next
    case False
    then have "(e, d) \<in> set dirs" using Cons.prems p by auto
    from Cons.IH [of _, OF this Cons.prems(2)] show ?thesis
      using p acc False
      by (cases "fs d'") (auto simp: path_exists_def list_md_files_def Let_def)
  qed
qed

lemma md_count_positive_is_directory:
  "0 < md_count fs d \<Longrightarrow> path_exists fs d \<and> fs d \<noteq> RegularFile"
  by (cases "fs d") (auto simp: md_count_def path_exists_def)

lemma baseline_get_nonneg: "baseline_ok B \<Longrightarrow> 0 \<le> baseline_get B e"
  by (auto simp: baseline_ok_def baseline_get_def split: option.splits)

lemma baseline_get_case:
  "baseline_get B e = (case B e of None \<Rightarrow> 0 | Some n \<Rightarrow> n)"
  by (simp add: baseline_get_def)

lemma max_by_result:
  "(list_all (\<lambda>x. \<not> isl (key x)) xs \<longrightarrow> (\<exists>r. max_by key xs best = Inr r)) \<and>
   (\<not> list_all (\<lambda>x. \<not> isl (key x)) xs \<longrightarrow> (\<exists>e. max_by key xs best = Inl e))"
proof (induction xs arbitrary: best)
  case Nil
  then show ?case by simp
next
  case (Cons x xs)
  show ?case
  proof (cases "key x")
    case (Inl e)
    then show ?thesis by simp
  next
    case (Inr v)
    show ?thesis
    proof (cases best)
      case None
      then show ?thesis using Inr Cons.IH [of "Some (x, v)"] by simp
    next
      case (Some b)
      obtain bx bv where b: "b = (bx, bv)" by (cases b)
      show ?thesis
        using Inr Some b Cons.IH [of "Some (x, v)"] Cons.IH [of best] by simp
    qed
  qed
qed

lemma latest_loop_result:
  assumes "\<forall>(e, d)\<in>set dirs. fs d \<noteq> RegularFile"
  shows "(mtimes_readable fs g dirs \<longrightarrow> (\<exists>l. latest_loop fs g dirs acc = Inr l)) \<and>
         (\<not> mtimes_readable fs g dirs \<longrightarrow> (\<exists>e. latest_loop fs g dirs acc = Inl e))"
  using assms
proof (induction dirs arbitrary: acc)
  case Nil
  then show ?case by (simp add: mtimes_readable_def)
next
  case (Cons p dirs)
  obtain e d where p: "p = (e, d)" by (cases p)
  have rest: "\<forall>(e, d)\<in>set dirs. fs d \<noteq> RegularFile" using Cons.prems by simp
  note IH = Cons.IH [OF rest]
  have split: "mtimes_readable fs g (p # dirs) \<longleftrightarrow>
      list_all (\<lambda>f. \<not> isl (g (os_path_join d f))) (md_files_of fs d) \<and> mtimes_readable fs g dirs"
    using p by (simp add: mtimes_readable_def)
  show ?case
  proof (cases "fs d")
    case Missing
    then show ?thesis
      using IH [of acc] p split by (simp add: path_exists_def md_files_of_def)
  next
    case RegularFile
    then show ?thesis using Cons.prems p by simp
  next
    case (Directory entries)
    let ?md = "filter (\<lambda>f. endswith f ''.md'') entries"
    have md: "md_files_of fs d = ?md" using Directory by (simp add: md_files_of_def)
    have lm: "list_md_files fs d = Inr ?md" using Directory by (simp add: list_md_files_def)
    have ex: "path_exists fs d" using Directory by (simp add: path_exists_def)
    show ?thesis
    proof (cases "?md = []")
      case True
      then show ?thesis using IH [of acc] p split md lm ex by simp
    next
      case False
      note ne = this
      show ?thesis
      proof (cases "list_all (\<lambda>f. \<not> isl (g (os_path_join d f))) ?md")
        case True
        then obtain r where r: "max_by (\<lambda>x. g (os_path_join d x)) ?md None = Inr r"
          using max_by_result [of "\<lambda>x. g (os_path_join d x)" ?md None] by auto
        show ?thesis
        proof (cases r)
          case None
          then show ?thesis using IH [of acc] p split md lm ex ne True r by simp
        next
          case (Some b)
          obtain lf t where b: "b = (lf, t)" by (cases b)
          show ?thesis
            using IH [of "acc @ [(e, os_path_join d lf)]"] p split md lm ex ne True r Some b
            by simp
        qed
      next
        case False
        then obtain x where "max_by (\<lambda>x. g (os_path_join d x)) ?md None = Inl x"
          using max_by_result [of "\<lambda>x. g (os_path_join d x)" ?md None] by auto
        then show ?thesis using p split md lm ex ne False by simp
      qed
    qed
  qed
qed

text \<open>
  Claim C3, as amended.  For a recorded baseline, \<open>check_new_files\<close> returns a result with
  \<open>ready = True\<close> if and only if, for each of the engines insight, media and query, the
  number of \<open>.md\<close> files in its directory strictly exceeds the count the baseline records for
  the engine (0 when it records none).  \<open>check_input_files\<close> returns a result with
  \<open>ready = True\<close> if and only if this holds, the forum log exists, and the time of the last
  change can be read for every \<open>.md\<close> file of the three directories; when it cannot, the
  error leaves the function and no result is returned.  In every result that is returned the
  flag tells whether all counts exceed their baselines and the forum log exists.  A
  directory that does not exist has the current count 0 in the result and makes it not
  ready.
\<close>

theorem check_input_files_ready_iff:
  assumes "baseline_ok baseline_data"
  shows "((\<exists>r. check_new_files fs baseline_data
                 (engine_directories insight_dir media_dir query_dir) = Inr r \<and> ready r)
          \<longleftrightarrow> (\<forall>(engine, directory)\<in>set (engine_directories insight_dir media_dir query_dir).
                 md_count fs directory > (case baseline_data engine of None \<Rightarrow> 0 | Some n \<Rightarrow> n))) \<and>
         ((\<exists>r. check_input_files fs getmtime baseline_data insight_dir media_dir query_dir
                 forum_log_path = Inr r \<and> input_ready r)
          \<longleftrightarrow> (\<forall>(engine, directory)\<in>set (engine_directories insight_dir media_dir query_dir).
                 md_count fs directory > (case baseline_data engine of None \<Rightarrow> 0 | Some n \<Rightarrow> n))
               \<and> path_exists fs forum_log_path
               \<and> mtimes_readable fs getmtime (engine_directories insight_dir media_dir query_dir)) \<and>
         (\<forall>r. check_input_files fs getmtime baseline_data insight_dir media_dir query_dir
                 forum_log_path = Inr r \<longrightarrow>
              input_baseline_counts r = baseline_data \<and>
              (input_ready r
               \<longleftrightarrow> (\<forall>(engine, directory)\<in>set (engine_directories insight_dir media_dir query_dir).
                      md_count fs directory > (case baseline_data engine of None \<Rightarrow> 0 | Some n \<Rightarrow> n))
                    \<and> path_exists fs forum_log_path)) \<and>
         (\<forall>r. \<forall>(engine, directory)\<in>set (engine_directories insight_dir media_dir query_dir).
            check_input_files fs getmtime baseline_data insight_dir media_dir query_dir
              forum_log_path = Inr r \<and> \<not> path_exists fs directory
            \<longrightarrow> map_of (input_current_counts r) engine = Some 0 \<and> \<not> input_ready r) \<and>
         ((\<forall>(engine, directory)\<in>set (engine_directories insight_dir media_dir query_dir).
              md_count fs directory > (case baseline_data engine of None \<Rightarrow> 0 | Some n \<Rightarrow> n))
          \<and> path_exists fs forum_log_path
          \<and> \<not> mtimes_readable fs getmtime (engine_directories insight_dir media_dir query_dir)
          \<longrightarrow> isl (check_input_files fs getmtime baseline_data insight_dir media_dir query_dir
                     forum_log_path))"
proof -
  let ?dirs = "engine_directories insight_dir media_dir query_dir"
  let ?all = "\<forall>(e, d)\<in>set ?dirs. md_count fs d > baseline_get baseline_data e"
  let ?cif = "check_input_files fs getmtime baseline_data insight_dir media_dir query_dir
                 forum_log_path"
  let ?forum = "path_exists fs forum_log_path"
  let ?mt = "mtimes_readable fs getmtime ?dirs"
  have goal: "((\<exists>r. check_new_files fs baseline_data ?dirs = Inr r \<and> ready r) \<longleftrightarrow> ?all) \<and>
      ((\<exists>r. ?cif = Inr r \<and> input_ready r) \<longleftrightarrow> ?all \<and> ?forum \<and> ?mt) \<and>
      (\<forall>r. ?cif = Inr r \<longrightarrow>
          input_baseline_counts r = baseline_data \<and> (input_ready r \<longleftrightarrow> ?all \<and> ?forum)) \<and>
      (\<forall>r. \<forall>(engine, directory)\<in>set ?dirs.
          ?cif = Inr r \<and> \<not> path_exists fs directory
          \<longrightarrow> map_of (input_current_counts r) engine = Some 0 \<and> \<not> input_ready r) \<and>
      (?all \<and> ?forum \<and> \<not> ?mt \<longrightarrow> isl ?cif)"
  proof (cases "\<exists>(e, d)\<in>set ?dirs. fs d = RegularFile")
    case True
    then obtain e d where ed: "(e, d) \<in> set ?dirs" "fs d = RegularFile" by auto
    have new: "check_new_files fs baseline_data ?dirs = Inl NotADirectoryError"
      using check_loop_Inl [of e d ?dirs fs baseline_data "([], [], True)"] ed
      by (simp add: check_new_files_def)
    then have raise: "?cif = Inl NotADirectoryError"
      by (simp add: check_input_files_def Let_def)
    have "md_count fs d = 0" using ed(2) by (simp add: md_count_def)
    then have "\<not> md_count fs d > baseline_get baseline_data e"
      using baseline_get_nonneg [OF assms, of e] by simp
    then have "\<not> ?all" using ed(1) by blast
    then show ?thesis using raise new by simp
  next
    case False
    then have nf: "\<forall>(e, d)\<in>set ?dirs. fs d \<noteq> RegularFile" by auto
    let ?ready = "(\<forall>(e, d)\<in>set ?dirs. path_exists fs d \<and> md_count fs d > baseline_get baseline_data e)"
    let ?counts = "map (\<lambda>(e, d). (e, md_count fs d)) ?dirs"
    let ?result = "\<lparr>input_ready = ?ready \<and> ?forum,
               input_baseline_counts = baseline_data,
               input_current_counts = ?counts,
               input_new_files_found = map (found_count fs baseline_data) ?dirs,
               input_latest_files = []\<rparr>"
    have new: "check_new_files fs baseline_data ?dirs
        = Inr \<lparr>ready = ?ready, baseline_counts = baseline_data, current_counts = ?counts,
               new_files_found = map (found_count fs baseline_data) ?dirs,
               missing_engines = map fst (filter (\<lambda>(engine, count). count = 0)
                                   (map (found_count fs baseline_data) ?dirs))\<rparr>"
      using check_loop_Inr [OF nf, of baseline_data "[]" "[]" True]
      by (simp add: check_new_files_def)
    have res: "?cif =
        (if ?ready \<and> ?forum then
           (case get_latest_files fs getmtime ?dirs of
              Inl e \<Rightarrow> Inl e
            | Inr latest_files \<Rightarrow>
                Inr (?result\<lparr>input_latest_files := latest_files @ [(''forum'', forum_log_path)]\<rparr>))
         else Inr ?result)"
      unfolding check_input_files_def Let_def new by (auto split: sum.splits)
    have eq: "?ready \<longleftrightarrow> ?all"
    proof
      assume ?ready then show ?all by blast
    next
      assume a: ?all
      show ?ready
      proof (intro ballI, clarify)
        fix e d assume ed: "(e, d) \<in> set ?dirs"
        with a have gt: "md_count fs d > baseline_get baseline_data e" by blast
        then have "0 < md_count fs d"
          using baseline_get_nonneg [OF assms, of e] by simp
        then show "path_exists fs d \<and> md_count fs d > baseline_get baseline_data e"
          using gt md_count_positive_is_directory by blast
      qed
    qed
    have zero: "map_of ?counts e = Some 0 \<and> \<not> ?ready"
      if "(e, d) \<in> set ?dirs" and "\<not> path_exists fs d" for e d
    proof -
      have "md_count fs d = 0" using that(2) by (simp add: md_count_def path_exists_def)
      moreover have "\<not> ?ready" using that by blast
      moreover have "map_of ?counts e = Some (md_count fs d)"
        using that(1) by (auto simp: engine_directories_def)
      ultimately show ?thesis by simp
    qed
    note latest = latest_loop_result [OF nf, of getmtime "[]", folded get_latest_files_def]
    have files: "(\<exists>r. check_new_files fs baseline_data ?dirs = Inr r \<and> ready r) \<longleftrightarrow> ?all"
      unfolding new using eq by simp
    show ?thesis
    proof (cases "?ready \<and> ?forum")
      case False
      have r: "?cif = Inr ?result" unfolding res by (rule if_not_P [OF False])
      have "\<not> (?all \<and> ?forum)" using False eq by simp
      then show ?thesis
        unfolding r using files False zero by auto
    next
      case True
      note rf = this
      then have af: "?all \<and> ?forum" using eq by simp
      have nz: "\<forall>(e, d)\<in>set ?dirs. path_exists fs d" using True by blast
      show ?thesis
      proof (cases ?mt)
        case True
        then obtain l where l: "get_latest_files fs getmtime ?dirs = Inr l"
          using latest by blast
        have r: "?cif = Inr (?result\<lparr>input_latest_files := l @ [(''forum'', forum_log_path)]\<rparr>)"
          unfolding res if_P [OF rf] l by simp
        show ?thesis
          unfolding r using files af True rf nz by auto
      next
        case False
        then obtain x where x: "get_latest_files fs getmtime ?dirs = Inl x"
          using latest by blast
        have r: "?cif = Inl x" unfolding res if_P [OF rf] x by simp
        show ?thesis
          unfolding r using files af False by simp
      qed
    qed
  qed
  show ?thesis using goal unfolding baseline_get_case .
qed

theorem check_input_files_ready_iff_witness:
  "baseline_ok sample_baseline \<and>
   md_count sample_fs ''insight_reports'' = 2 \<and> sample_baseline ''insight'' = Some 1 \<and>
   md_count sample_fs ''media_reports'' = 1 \<and> sample_baseline ''media'' = Some 0 \<and>
   md_count sample_fs ''query_reports'' = 2 \<and> sample_baseline ''query'' = Some 1 \<and>
   path_exists sample_fs ''logs/forum.log'' \<and>
   mtimes_readable sample_fs sample_mtime
     (engine_directories ''insight_reports'' ''media_reports'' ''query_reports'') \<and>
   (\<exists>r. check_input_files sample_fs sample_mtime sample_baseline
           ''insight_reports'' ''media_reports'' ''query_reports'' ''logs/forum.log'' = Inr r \<and>
        input_ready r) \<and>
   baseline_ok later_baseline \<and> later_baseline ''insight'' = Some 2 \<and>
   \<not> (\<exists>r. check_input_files sample_fs sample_mtime later_baseline
           ''insight_reports'' ''media_reports'' ''query_reports'' ''logs/forum.log'' = Inr r \<and>
        input_ready r) \<and>
   \<not> path_exists sample_fs ''nowhere'' \<and>
   \<not> (\<exists>r. check_input_files sample_fs sample_mtime sample_baseline
           ''insight_reports'' ''media_reports'' ''nowhere'' ''logs/forum.log'' = Inr r \<and>
        input_ready r)"
proof -
  have ok: "baseline_ok sample_baseline" "baseline_ok later_baseline"
    by (auto simp: baseline_ok_def sample_baseline_def later_baseline_def split: if_splits)
  have counts:
    "md_count sample_fs ''insight_reports'' = 2"
    "md_count sample_fs ''media_reports'' = 1"
    "md_count sample_fs ''query_reports'' = 2"
    by (simp_all add: md_count_def sample_fs_def endswith_def)
  have base:
    "sample_baseline ''insight'' = Some 1" "sample_baseline ''media'' = Some 0"
    "sample_baseline ''query'' = Some 1"
    "later_baseline ''insight'' = Some 2" "later_baseline ''media'' = Some 0"
    "later_baseline ''query'' = Some 1"
    by (simp_all add: sample_baseline_def later_baseline_def)
  have forum: "path_exists sample_fs ''logs/forum.log''"
    by (simp add: path_exists_def sample_fs_def)
  have mt: "mtimes_readable sample_fs sample_mtime
     (engine_directories ''insight_reports'' ''media_reports'' ''query_reports'')"
    by (simp add: mtimes_readable_def engine_directories_def md_files_of_def sample_fs_def
        endswith_def os_path_join_def sample_mtime_def)
  have nowhere: "\<not> path_exists sample_fs ''nowhere''" "md_count sample_fs ''nowhere'' = 0"
    by (simp_all add: path_exists_def md_count_def sample_fs_def)
  from check_input_files_ready_iff [OF ok(1), of sample_fs
      "''insight_reports''" "''media_reports''" "''query_reports''" sample_mtime
      "''logs/forum.log''"]
    counts base forum mt
  have yes: "\<exists>r. check_input_files sample_fs sample_mtime sample_baseline
           ''insight_reports'' ''media_reports'' ''query_reports'' ''logs/forum.log'' = Inr r \<and>
        input_ready r"
    by (simp add: engine_directories_def)
  from check_input_files_ready_iff [OF ok(2), of sample_fs
      "''insight_reports''" "''media_reports''" "''query_reports''" sample_mtime
      "''logs/forum.log''"]
    counts base
  have later: "\<not> (\<exists>r. check_input_files sample_fs sample_mtime later_baseline
           ''insight_reports'' ''media_reports'' ''query_reports'' ''logs/forum.log'' = Inr r \<and>
        input_ready r)"
    by (simp add: engine_directories_def)
  from check_input_files_ready_iff [OF ok(1), of sample_fs
      "''insight_reports''" "''media_reports''" "''nowhere''" sample_mtime
      "''logs/forum.log''"]
    nowhere base
  have no: "\<not> (\<exists>r. check_input_files sample_fs sample_mtime sample_baseline
           ''insight_reports'' ''media_reports'' ''nowhere'' ''logs/forum.log'' = Inr r \<and>
        input_ready r)"
    by (simp add: engine_directories_def)
  show ?thesis using ok counts base forum mt yes later nowhere(1) no by blast
qed

text \<open>
  The claim as it was written fails when a report is removed between the listing of its
  directory and the reading of its time, or is a link to nothing: every engine has more
  \<open>.md\<close> files than its baseline and the forum log exists, but \<open>os.path.getmtime\<close> raises in
  \<open>get_latest_files\<close>, and \<open>check_input_files\<close> returns no result at all, ready or not.
\<close>

theorem check_input_files_raises_counterexample:
  "md_count sample_fs ''insight_reports'' = 2 \<and> sample_baseline ''insight'' = Some 1 \<and>
   md_count sample_fs ''media_reports'' = 1 \<and> sample_baseline ''media'' = Some 0 \<and>
   md_count sample_fs ''query_reports'' = 2 \<and> sample_baseline ''query'' = Some 1 \<and>
   path_exists sample_fs ''logs/forum.log'' \<and>
   vanished_mtime ''media_reports/m.md'' = Inl FileNotFoundError \<and>
   check_input_files sample_fs vanished_mtime sample_baseline
       ''insight_reports'' ''media_reports'' ''query_reports'' ''logs/forum.log''
     = Inl FileNotFoundError"
  by (simp add: md_count_def sample_fs_def endswith_def sample_baseline_def path_exists_def
      vanished_mtime_def sample_mtime_def check_input_files_def engine_directories_def
      check_new_files_def list_md_files_def baseline_get_def get_latest_files_def
      os_path_join_def Let_def)

subsection \<open>System start is single-flight\<close>

lemma length_filter_update:
  "i < length xs \<Longrightarrow>
   length (filter P (xs[i := y])) + (if P (xs ! i) then 1 else 0)
     = length (filter P xs) + (if P y then 1 else 0)"
proof (induction xs arbitrary: i)
  case Nil
  then show ?case by simp
next
  case (Cons x xs)
  show ?case
  proof (cases i)
    case 0
    then show ?thesis by simp
  next
    case (Suc j)
    then have "j < length xs" using Cons.prems by simp
    from Cons.IH [OF this] show ?thesis using Suc by simp
  qed
qed

lemma grant_inv_initial: "grant_inv initial_server"
  by (simp add: grant_inv_def initial_server_def initial_system_state_def grants_def)

lemma grant_inv_step: "grant_inv sv \<Longrightarrow> \<not> is_cleanup e \<Longrightarrow> grant_inv (server_step sv e)"
proof (cases e)
  case Arrive
  assume "grant_inv sv"
  then show ?thesis using Arrive
    by (auto simp: grant_inv_def grants_def prepare_system_start_def)
next
  case (Cleanup i)
  assume "\<not> is_cleanup e"
  then show ?thesis using Cleanup by simp
next
  case (InitResult i ok)
  assume inv: "grant_inv sv"
  show ?thesis
  proof (cases "i < length (requests sv) \<and>
         (requests sv ! i = Initializing \<or> requests sv ! i = CleanedUp \<and> \<not> ok)")
    case True
    then have "holds_grant (requests sv ! i)" by auto
    then have "length (filter holds_grant ((requests sv)[i := Finalizing ok]))
        = length (filter holds_grant (requests sv))"
      using length_filter_update [of i "requests sv" holds_grant "Finalizing ok"] True by simp
    then show ?thesis using inv True InitResult
      by (simp add: grant_inv_def grants_def set_system_state_def)
  next
    case False
    then show ?thesis using inv InitResult by auto
  qed
next
  case (InitAborted i)
  assume inv: "grant_inv sv"
  show ?thesis
  proof (cases "i < length (requests sv) \<and>
         (requests sv ! i = Initializing \<or> requests sv ! i = CleanedUp)")
    case True
    then have "holds_grant (requests sv ! i)" by auto
    then have "length (filter holds_grant ((requests sv)[i := Finalizing False]))
        = length (filter holds_grant (requests sv))"
      using length_filter_update [of i "requests sv" holds_grant "Finalizing False"] True by simp
    then show ?thesis using inv True InitAborted
      by (simp add: grant_inv_def grants_def)
  next
    case False
    then show ?thesis using inv InitAborted by auto
  qed
next
  case (Finish i)
  assume inv: "grant_inv sv"
  show ?thesis
  proof (cases "i < length (requests sv)")
    case True
    note lt = this
    show ?thesis
    proof (cases "requests sv ! i")
      case (Finalizing ok)
      then have eq: "length (filter holds_grant ((requests sv)[i := Responded ok])) + 1
          = length (filter holds_grant (requests sv))"
        using length_filter_update [of i "requests sv" holds_grant "Responded ok"] lt by simp
      then show ?thesis using inv lt Finish Finalizing
        by (auto simp: grant_inv_def grants_def set_system_state_def split: if_splits)
    qed (use inv lt Finish in auto)
  next
    case False
    then show ?thesis using inv Finish by auto
  qed
qed

lemma grant_inv_run:
  "grant_inv sv \<Longrightarrow> no_cleanup evs \<Longrightarrow> grant_inv (server_run sv evs)"
  unfolding server_run_def no_cleanup_def
  by (induction evs arbitrary: sv) (auto intro: grant_inv_step)

text \<open>
  Claim C8, as amended.  The guard step answers \<open>System already started\<close> whenever the
  started flag is set (also when starting is set as well), \<open>System is starting\<close> when
  starting is set and started is clear, and only a request that finds both flags clear sets
  starting and goes on to the initialization.  Over every interleaving of requests in which
  no initialization has collected errors, at most one request holds the start grant at any
  moment.
\<close>

theorem prepare_system_start_single_flight:
  "(started s \<longrightarrow> prepare_system_start s = ((False, Some ''System already started''), s)) \<and>
   (\<not> started s \<and> starting s \<longrightarrow>
      prepare_system_start s = ((False, Some ''System is starting''), s)) \<and>
   (\<not> started s \<and> \<not> starting s \<longrightarrow>
      prepare_system_start s = ((True, None), s\<lparr>starting := True\<rparr>)) \<and>
   (fst (fst (prepare_system_start s)) \<longleftrightarrow> \<not> started s \<and> \<not> starting s) \<and>
   (no_cleanup evs \<longrightarrow>
      grants (server_run initial_server evs) \<le> 1 \<and>
      (grants (server_run initial_server evs) = 1
         \<longleftrightarrow> starting (flags (server_run initial_server evs))))"
proof -
  have "grant_inv (server_run initial_server evs)" if "no_cleanup evs"
    by (rule grant_inv_run [OF grant_inv_initial that])
  then have "no_cleanup evs \<longrightarrow>
      grants (server_run initial_server evs) \<le> 1 \<and>
      (grants (server_run initial_server evs) = 1
         \<longleftrightarrow> starting (flags (server_run initial_server evs)))"
    by (simp add: grant_inv_def)
  then show ?thesis by (simp add: prepare_system_start_def)
qed

theorem prepare_system_start_single_flight_witness:
  "prepare_system_start \<lparr>started = True, starting = False\<rparr>
     = ((False, Some ''System already started''), \<lparr>started = True, starting = False\<rparr>) \<and>
   prepare_system_start \<lparr>started = False, starting = True\<rparr>
     = ((False, Some ''System is starting''), \<lparr>started = False, starting = True\<rparr>) \<and>
   prepare_system_start \<lparr>started = False, starting = False\<rparr>
     = ((True, None), \<lparr>started = False, starting = True\<rparr>) \<and>
   no_cleanup [Arrive, Arrive, InitResult 0 False, Finish 0, Arrive] \<and>
   requests (server_run initial_server [Arrive, Arrive, InitResult 0 False, Finish 0, Arrive])
     = [Responded False, Rejected ''System is starting'', Initializing] \<and>
   grants (server_run initial_server [Arrive, Arrive, InitResult 0 False, Finish 0, Arrive]) = 1"
proof -
  have n: "no_cleanup [Arrive, Arrive, InitResult 0 False, Finish 0, Arrive]"
    by (simp add: no_cleanup_def)
  have r: "server_run initial_server [Arrive, Arrive, InitResult 0 False, Finish 0, Arrive]
      = \<lparr>flags = \<lparr>started = False, starting = True\<rparr>,
         requests = [Responded False, Rejected ''System is starting'', Initializing]\<rparr>"
    by (simp add: server_run_def initial_server_def initial_system_state_def
        prepare_system_start_def set_system_state_def)
  show ?thesis
    using prepare_system_start_single_flight [of "\<lparr>started = True, starting = False\<rparr>" "[]"]
      prepare_system_start_single_flight [of "\<lparr>started = False, starting = True\<rparr>" "[]"]
      prepare_system_start_single_flight [of "\<lparr>started = False, starting = False\<rparr>"
        "[Arrive, Arrive, InitResult 0 False, Finish 0, Arrive]"] n
    unfolding r by simp
qed

text \<open>
  The claim as it was written fails in two reachable states.  After a successful
  initialization and before the \<open>finally\<close> clause of that request, both flags are set, and a
  request arriving then is answered \<open>System already started\<close>, not \<open>System is starting\<close>.
  And when an initialization has collected errors, its cleanup clears the starting flag
  while the request is still running: a second request is granted, the first one then
  clears the flag again in its \<open>finally\<close> clause, and a third request is granted while the
  second is still initializing.
\<close>

theorem prepare_system_start_starting_counterexample:
  "flags (server_run initial_server [Arrive, InitResult 0 True]) = \<lparr>started = True, starting = True\<rparr> \<and>
   starting \<lparr>started = True, starting = True\<rparr> \<and>
   fst (prepare_system_start \<lparr>started = True, starting = True\<rparr>)
     = (False, Some ''System already started'') \<and>
   fst (prepare_system_start \<lparr>started = True, starting = True\<rparr>)
     \<noteq> (False, Some ''System is starting'') \<and>
   requests (server_run initial_server [Arrive, Cleanup 0, Arrive])
     = [CleanedUp, Initializing] \<and>
   grants (server_run initial_server [Arrive, Cleanup 0, Arrive]) = 2 \<and>
   requests (server_run initial_server
       [Arrive, Cleanup 0, Arrive, InitResult 0 False, Finish 0, Arrive])
     = [Responded False, Initializing, Initializing]"
  by (simp add: server_run_def initial_server_def initial_system_state_def
      prepare_system_start_def set_system_state_def grants_def)

subsection \<open>The graceful retry envelope\<close>

lemma graceful_loop_no_propagation:
  "raises_only_errors config func \<Longrightarrow> \<forall>j. pause j = None \<Longrightarrow>
   \<exists>v. fst (graceful_loop config d func pause a n) = Inr v"
proof (induction n arbitrary: a)
  case 0
  then show ?case by simp
next
  case (Suc n)
  show ?case
  proof (cases "func a")
    case (Returns v)
    then show ?thesis by simp
  next
    case (Raises e)
    with Suc.prems have "retry_on_exceptions config e \<or> is_Exception e"
      by (auto simp: raises_only_errors_def)
    with Raises Suc.IH [OF Suc.prems, of "Suc a"] Suc.prems(2) show ?thesis by auto
  qed
qed

lemma graceful_loop_skip:
  "(\<forall>j<k. \<exists>e. func (a + j) = Raises e \<and> retry_on_exceptions config e) \<Longrightarrow>
   (\<forall>j<k. int (a + j) \<noteq> max_retries config \<longrightarrow> pause (a + j) = None) \<Longrightarrow>
   k \<le> n \<Longrightarrow> int a + int n = max_retries config + 1 \<Longrightarrow>
   graceful_loop config d func pause a n =
     (if k = n \<and> 0 < n then (Inr d, a + n)
      else graceful_loop config d func pause (a + k) (n - k))"
proof (induction k arbitrary: a n)
  case 0
  then show ?case by simp
next
  case (Suc k)
  then obtain m where n: "n = Suc m" by (cases n) auto
  from Suc.prems(1) obtain e where e: "func a = Raises e" "retry_on_exceptions config e"
    by force
  show ?case
  proof (cases "int a = max_retries config")
    case True
    with Suc.prems n have "m = 0" by simp
    with Suc.prems n have "k = 0" by simp
    with True e n \<open>m = 0\<close> show ?thesis by simp
  next
    case False
    have "pause (a + 0) = None" using Suc.prems(2) False by force
    then have p: "pause a = None" by simp
    have step: "graceful_loop config d func pause a n = graceful_loop config d func pause (Suc a) m"
      using e False n p by simp
    have "\<forall>j<k. \<exists>e. func (Suc a + j) = Raises e \<and> retry_on_exceptions config e"
      using Suc.prems(1) by (metis Suc_less_eq add_Suc_right add_Suc)
    moreover have "\<forall>j<k. int (Suc a + j) \<noteq> max_retries config \<longrightarrow> pause (Suc a + j) = None"
      using Suc.prems(2) by (metis Suc_less_eq add_Suc_right add_Suc)
    moreover have "k \<le> m" using Suc.prems(3) n by simp
    moreover have "int (Suc a) + int m = max_retries config + 1"
      using Suc.prems(4) n by simp
    ultimately have "graceful_loop config d func pause (Suc a) m =
        (if k = m \<and> 0 < m then (Inr d, Suc a + m)
         else graceful_loop config d func pause (Suc a + k) (m - k))"
      by (rule Suc.IH)
    moreover have "m \<noteq> 0" using False Suc.prems(4) n by auto
    ultimately show ?thesis using step n by auto
  qed
qed


text \<open>
  Claim C9, as amended.  As long as the pause between two attempts completes, the wrapper
  lets no exception of the wrapped operation escape that is an instance of \<open>Exception\<close> or of
  a configured retryable type: when every one of the \<open>max_retries + 1\<close> attempts raises a
  retryable exception it returns the default; at the first exception that is not retryable
  and derives from \<open>Exception\<close> it returns the default at once, without a further attempt; the
  first attempt that succeeds gives the result.  An exception that is neither retryable nor
  derived from \<open>Exception\<close> leaves the wrapper, and so does an exception raised by the pause
  after a failed attempt that is not the last.
\<close>

theorem with_graceful_retry_contract:
  "(raises_only_errors config func \<and> (\<forall>j. pause j = None) \<longrightarrow>
      (\<exists>v. fst (with_graceful_retry config d func pause) = Inr v)) \<and>
   (retryable_until config func (nat (max_retries config + 1)) \<and>
    pauses_until pause (nat (max_retries config)) \<longrightarrow>
      with_graceful_retry config d func pause = (Inr d, nat (max_retries config + 1))) \<and>
   (k < nat (max_retries config + 1) \<and> retryable_until config func k \<and> pauses_until pause k \<and>
    func k = Raises e \<and> \<not> retry_on_exceptions config e \<and> is_Exception e \<longrightarrow>
      with_graceful_retry config d func pause = (Inr d, Suc k)) \<and>
   (k < nat (max_retries config + 1) \<and> retryable_until config func k \<and> pauses_until pause k \<and>
    func k = Returns v \<longrightarrow>
      with_graceful_retry config d func pause = (Inr v, Suc k)) \<and>
   (k < nat (max_retries config + 1) \<and> retryable_until config func k \<and> pauses_until pause k \<and>
    func k = Raises e \<and> \<not> retry_on_exceptions config e \<and> \<not> is_Exception e \<longrightarrow>
      with_graceful_retry config d func pause = (Inl e, Suc k)) \<and>
   (k < nat (max_retries config) \<and> retryable_until config func (Suc k) \<and>
    pauses_until pause k \<and> pause k = Some e \<longrightarrow>
      with_graceful_retry config d func pause = (Inl e, Suc k))"
proof -
  let ?n = "nat (max_retries config + 1)"
  have no_prop: "raises_only_errors config func \<and> (\<forall>j. pause j = None) \<longrightarrow>
      (\<exists>v. fst (with_graceful_retry config d func pause) = Inr v)"
    unfolding with_graceful_retry_def by (simp add: graceful_loop_no_propagation)
  have skip: "graceful_loop config d func pause 0 ?n =
     (if j = ?n \<and> 0 < ?n then (Inr d, ?n) else graceful_loop config d func pause j (?n - j))"
    if "retryable_until config func j"
      and "\<forall>i<j. int i \<noteq> max_retries config \<longrightarrow> pause i = None"
      and "j \<le> ?n" and "0 < ?n" for j
  proof -
    have "\<forall>i<j. \<exists>e. func (0 + i) = Raises e \<and> retry_on_exceptions config e"
      using that(1) by (simp add: retryable_until_def)
    moreover have "\<forall>i<j. int (0 + i) \<noteq> max_retries config \<longrightarrow> pause (0 + i) = None"
      using that(2) by simp
    moreover have "int 0 + int ?n = max_retries config + 1"
      using that(4) by simp
    ultimately show ?thesis
      using graceful_loop_skip [of j func 0 config pause ?n d] that(3) by simp
  qed
  have exhausted: "retryable_until config func ?n \<and> pauses_until pause (nat (max_retries config)) \<longrightarrow>
      with_graceful_retry config d func pause = (Inr d, ?n)"
  proof (cases "0 < ?n")
    case True
    show ?thesis
    proof (intro impI, elim conjE)
      assume r: "retryable_until config func ?n"
        and p: "pauses_until pause (nat (max_retries config))"
      have "\<forall>i<?n. int i \<noteq> max_retries config \<longrightarrow> pause i = None"
        using p True by (auto simp: pauses_until_def)
      from skip [OF r this _ True] show "with_graceful_retry config d func pause = (Inr d, ?n)"
        using True by (simp add: with_graceful_retry_def)
    qed
  next
    case False
    then show ?thesis by (simp add: with_graceful_retry_def)
  qed
  have at_k: "with_graceful_retry config d func pause
      = graceful_loop config d func pause k (Suc (?n - Suc k))"
    if "k < ?n" and "retryable_until config func k" and "pauses_until pause k"
  proof -
    have "?n - k = Suc (?n - Suc k)" using that(1) by simp
    moreover have "\<forall>i<k. int i \<noteq> max_retries config \<longrightarrow> pause i = None"
      using that(3) by (simp add: pauses_until_def)
    ultimately show ?thesis
      using skip [of k] that by (simp add: with_graceful_retry_def)
  qed
  have paused: "with_graceful_retry config d func pause = (Inl e, Suc k)"
    if "k < nat (max_retries config)" and "retryable_until config func (Suc k)"
      and "pauses_until pause k" and "pause k = Some e"
  proof -
    have lt: "k < ?n" using that(1) by simp
    have r: "retryable_until config func k"
      using that(2) by (simp add: retryable_until_def)
    from that(2) obtain e' where e': "func k = Raises e'" "retry_on_exceptions config e'"
      by (auto simp: retryable_until_def)
    have "int k \<noteq> max_retries config" using that(1) by simp
    then show ?thesis
      unfolding at_k [OF lt r that(3)] using e' that(4) by simp
  qed
  show ?thesis
    using no_prop exhausted at_k paused by auto
qed

theorem with_graceful_retry_contract_witness:
  "with_graceful_retry SEARCH_API_RETRY_CONFIG (-1) always_times_out sleeps = (Inr (-1), 6) \<and>
   with_graceful_retry network_only (-1) fails_then_value_error sleeps = (Inr (-1), 2) \<and>
   with_graceful_retry network_only (-1) succeeds_third_time sleeps = (Inr 42, 3) \<and>
   with_graceful_retry SEARCH_API_RETRY_CONFIG (-1) interrupted sleeps = (Inl KeyboardInterrupt, 1) \<and>
   with_graceful_retry SEARCH_API_RETRY_CONFIG (-1) always_times_out negative_delay
     = (Inl (ExceptionInstance ''ValueError''), 1) \<and>
   raises_only_errors network_only succeeds_third_time"
proof -
  have a: "retryable_until SEARCH_API_RETRY_CONFIG always_times_out
             (nat (max_retries SEARCH_API_RETRY_CONFIG + 1)) \<and>
      pauses_until sleeps (nat (max_retries SEARCH_API_RETRY_CONFIG))"
    by (simp add: retryable_until_def SEARCH_API_RETRY_CONFIG_def always_times_out_def
        pauses_until_def sleeps_def)
  have b: "1 < nat (max_retries network_only + 1) \<and>
      retryable_until network_only fails_then_value_error 1 \<and> pauses_until sleeps 1 \<and>
      fails_then_value_error 1 = Raises (ExceptionInstance ''ValueError'') \<and>
      \<not> retry_on_exceptions network_only (ExceptionInstance ''ValueError'') \<and>
      is_Exception (ExceptionInstance ''ValueError'')"
    by (simp add: retryable_until_def network_only_def fails_then_value_error_def
        pauses_until_def sleeps_def)
  have c: "2 < nat (max_retries network_only + 1) \<and>
      retryable_until network_only succeeds_third_time 2 \<and> pauses_until sleeps 2 \<and>
      succeeds_third_time 2 = Returns 42"
    by (simp add: retryable_until_def network_only_def succeeds_third_time_def
        pauses_until_def sleeps_def)
  have d: "0 < nat (max_retries SEARCH_API_RETRY_CONFIG + 1) \<and>
      retryable_until SEARCH_API_RETRY_CONFIG interrupted 0 \<and> pauses_until sleeps 0 \<and>
      interrupted 0 = Raises KeyboardInterrupt \<and>
      \<not> retry_on_exceptions SEARCH_API_RETRY_CONFIG KeyboardInterrupt \<and>
      \<not> is_Exception KeyboardInterrupt"
    by (simp add: retryable_until_def SEARCH_API_RETRY_CONFIG_def interrupted_def
        pauses_until_def)
  have e: "raises_only_errors network_only succeeds_third_time"
    by (simp add: raises_only_errors_def succeeds_third_time_def network_only_def)
  have f: "0 < nat (max_retries SEARCH_API_RETRY_CONFIG) \<and>
      retryable_until SEARCH_API_RETRY_CONFIG always_times_out (Suc 0) \<and>
      pauses_until negative_delay 0 \<and>
      negative_delay 0 = Some (ExceptionInstance ''ValueError'')"
    by (simp add: retryable_until_def SEARCH_API_RETRY_CONFIG_def always_times_out_def
        pauses_until_def negative_delay_def)
  have n: "nat (max_retries SEARCH_API_RETRY_CONFIG + 1) = 6"
    by (simp add: SEARCH_API_RETRY_CONFIG_def)
  show ?thesis
    using with_graceful_retry_contract
        [where config = SEARCH_API_RETRY_CONFIG and func = always_times_out and pause = sleeps
           and d = "-1" and k = 0 and e = KeyboardInterrupt and v = 0] a n
      with_graceful_retry_contract
        [where config = network_only and func = fails_then_value_error and pause = sleeps
           and d = "-1" and k = 1 and e = "ExceptionInstance ''ValueError''" and v = 0] b
      with_graceful_retry_contract
        [where config = network_only and func = succeeds_third_time and pause = sleeps
           and d = "-1" and k = 2 and e = KeyboardInterrupt and v = 42] c
      with_graceful_retry_contract
        [where config = SEARCH_API_RETRY_CONFIG and func = interrupted and pause = sleeps
           and d = "-1" and k = 0 and e = KeyboardInterrupt and v = 0] d e
      with_graceful_retry_contract
        [where config = SEARCH_API_RETRY_CONFIG and func = always_times_out
           and pause = negative_delay and d = "-1" and k = 0
           and e = "ExceptionInstance ''ValueError''" and v = 0] f
    by simp
qed

text \<open>
  The claim as it was written fails: \<open>KeyboardInterrupt\<close> derives from \<open>BaseException\<close> only,
  neither \<open>except\<close> clause catches it, and it leaves the wrapper at the first attempt.  And
  with a negative \<open>initial_delay\<close> an operation that raises a retryable error at every attempt
  does not get the default: \<open>time.sleep\<close> raises \<open>ValueError\<close> inside the handler after the
  first attempt, and that exception leaves the wrapper.
\<close>

theorem with_graceful_retry_propagates_counterexample:
  "fst (with_graceful_retry SEARCH_API_RETRY_CONFIG (-1) interrupted sleeps) = Inl KeyboardInterrupt \<and>
   with_graceful_retry SEARCH_API_RETRY_CONFIG (-1) always_times_out negative_delay
     = (Inl (ExceptionInstance ''ValueError''), 1)"
  by (simp add: with_graceful_retry_def SEARCH_API_RETRY_CONFIG_def interrupted_def
      always_times_out_def negative_delay_def eval_nat_numeral)

subsection \<open>The bound on reflections\<close>

lemma update_research_length [simp]: "length (update_research i f ps) = length ps"
  by (simp add: update_research_def)

lemma update_research_count:
  "j < length ps \<Longrightarrow>
   reflection_count (paragraph_research (update_research i f ps ! j))
     = (if j = i then reflection_count (f (paragraph_research (ps ! j)))
        else reflection_count (paragraph_research (ps ! j)))"
  by (simp add: update_research_def nth_list_update)

lemma advanced_refl: "advanced a a (\<lambda>j. 0)"
  by (simp add: advanced_def)

lemma advanced_trans:
  "advanced a b d \<Longrightarrow> advanced b c d' \<Longrightarrow> advanced a c (\<lambda>j. d j + d' j)"
  by (simp add: advanced_def)

lemma reflection_round_advanced:
  assumes "i < length (paragraphs a)" and "reflection_round nd i a = Inr a'"
  shows "advanced a a' (\<lambda>j. if j = i then 1 else 0)"
proof -
  let ?p = "paragraphs a ! i"
  from assms(2) obtain q where q: "reflection_run nd (length (calls a))
      (paragraph_title ?p, paragraph_content ?p, latest_summary (paragraph_research ?p)) = Inr q"
    by (auto simp: reflection_round_def Let_def split: sum.splits)
  from assms(2) q obtain rs where rs: "run_search nd (Suc (length (calls a))) q = Inr rs"
    by (auto simp: reflection_round_def Let_def split: sum.splits)
  let ?ps = "update_research i (add_search_results q rs) (paragraphs a)"
  from assms(2) q rs obtain s where s: "reflection_summary_run nd (Suc (length (calls a)))
      (paragraph_title ?p, paragraph_content ?p, q, rs, latest_summary (paragraph_research (?ps ! i)))
        = Inr s"
    by (auto simp: reflection_round_def Let_def reflection_summary_mutate_state_def split: sum.splits)
  have a': "a' = a\<lparr>paragraphs := update_research i
                     (\<lambda>r. increment_reflection (r\<lparr>latest_summary := s\<rparr>)) ?ps,
                   calls := calls a @ [Reflection i, ReflectionSummary i]\<rparr>"
    using assms q rs s
    by (simp add: reflection_round_def Let_def reflection_summary_mutate_state_def)
  show ?thesis
    unfolding a' advanced_def reflections_of_def
    using assms(1)
    by (auto simp: update_research_count increment_reflection_def add_search_results_def)
qed

lemma reflection_rounds_advanced:
  "i < length (paragraphs a) \<Longrightarrow> reflection_rounds nd i n a = Inr a' \<Longrightarrow>
   advanced a a' (\<lambda>j. if j = i then n else 0)"
proof (induction n arbitrary: a)
  case 0
  then show ?case using advanced_refl [of a] by (simp add: if_distrib)
next
  case (Suc n)
  from Suc.prems(2) obtain b where b: "reflection_round nd i a = Inr b"
    and rest: "reflection_rounds nd i n b = Inr a'"
    by (auto split: sum.splits)
  from reflection_round_advanced [OF Suc.prems(1) b]
  have ab: "advanced a b (\<lambda>j. if j = i then 1 else 0)" .
  then have "i < length (paragraphs b)" using Suc.prems(1) by (simp add: advanced_def)
  from Suc.IH [OF this rest] have "advanced b a' (\<lambda>j. if j = i then n else 0)" .
  from advanced_trans [OF ab this]
  have "advanced a a' (\<lambda>j. (if j = i then 1 else 0) + (if j = i then n else 0))" .
  moreover have "(\<lambda>j. (if j = i then 1 else 0) + (if j = i then n else 0))
      = (\<lambda>j. if j = i then Suc n else 0)" by auto
  ultimately show ?case by simp
qed

lemma initial_search_and_summary_advanced:
  assumes "initial_search_and_summary nd i a = Inr a'"
  shows "advanced a a' (\<lambda>j. 0)"
proof -
  have lt: "i < length (paragraphs a)"
    using assms by (auto simp: initial_search_and_summary_def split: if_splits)
  let ?p = "paragraphs a ! i"
  from assms lt obtain q where q: "first_search_run nd (length (calls a))
      (paragraph_title ?p, paragraph_content ?p) = Inr q"
    by (auto simp: initial_search_and_summary_def Let_def split: sum.splits)
  from assms lt q obtain rs where rs: "run_search nd (Suc (length (calls a))) q = Inr rs"
    by (auto simp: initial_search_and_summary_def Let_def split: sum.splits)
  let ?ps = "update_research i (add_search_results q rs) (paragraphs a)"
  from assms lt q rs obtain s where s: "first_summary_run nd (Suc (length (calls a)))
      (paragraph_title ?p, paragraph_content ?p, q, rs) = Inr s"
    by (auto simp: initial_search_and_summary_def Let_def first_summary_mutate_state_def
        split: sum.splits)
  have a': "a' = a\<lparr>paragraphs := update_research i (\<lambda>r. r\<lparr>latest_summary := s\<rparr>) ?ps,
                   calls := calls a @ [FirstSearch i, FirstSummary i]\<rparr>"
    using assms lt q rs s
    by (simp add: initial_search_and_summary_def Let_def first_summary_mutate_state_def)
  show ?thesis
    unfolding a' advanced_def reflections_of_def
    using lt by (auto simp: update_research_count add_search_results_def)
qed

lemma mark_completed_advanced:
  "advanced a (a\<lparr>paragraphs := update_research i mark_completed (paragraphs a)\<rparr>) (\<lambda>j. 0)"
  by (auto simp: advanced_def reflections_of_def update_research_count mark_completed_def)

lemma process_indices_advanced:
  "distinct inds \<Longrightarrow> process_indices nd M inds a = Inr a' \<Longrightarrow>
   advanced a a' (\<lambda>j. if j \<in> set inds then nat M else 0)"
proof (induction inds arbitrary: a)
  case Nil
  then show ?case using advanced_refl [of a] by simp
next
  case (Cons i rest)
  from Cons.prems(2) obtain a1 where a1: "initial_search_and_summary nd i a = Inr a1"
    by (auto split: sum.splits)
  from Cons.prems(2) a1 obtain a2 where a2: "reflection_loop nd M i a1 = Inr a2"
    by (auto split: sum.splits)
  let ?a3 = "a2\<lparr>paragraphs := update_research i mark_completed (paragraphs a2)\<rparr>"
  have rest: "process_indices nd M rest ?a3 = Inr a'"
    using Cons.prems(2) a1 a2 by simp
  have lt: "i < length (paragraphs a1)"
    using a2 by (auto simp: reflection_loop_def split: if_splits)
  have rr: "reflection_rounds nd i (nat M) a1 = Inr a2"
    using a2 lt by (simp add: reflection_loop_def)
  note s1 = initial_search_and_summary_advanced [OF a1]
  note s2 = reflection_rounds_advanced [OF lt rr]
  note s3 = mark_completed_advanced [of a2 i]
  have "distinct rest" using Cons.prems(1) by simp
  note s4 = Cons.IH [OF this rest]
  have "advanced a a' (\<lambda>j. 0 + (if j = i then nat M else 0) + 0
                            + (if j \<in> set rest then nat M else 0))"
    using advanced_trans [OF advanced_trans [OF advanced_trans [OF s1 s2] s3] s4] .
  moreover have "(\<lambda>j. 0 + (if j = i then nat M else 0) + 0
                            + (if j \<in> set rest then nat M else 0))
      = (\<lambda>j. if j \<in> set (i # rest) then nat M else 0)"
    using Cons.prems(1) by auto
  ultimately show ?case by simp
qed

text \<open>
  Claim C7, as amended.  In every run of the paragraph loop that completes, for a planned
  report, each paragraph's reflection loop calls the reflection node and the reflection
  summary node exactly \<open>len(range(MAX_REFLECTIONS))\<close> times each, which is \<open>MAX_REFLECTIONS\<close>
  when the maximum is not negative and 0 otherwise; every summary increments the paragraph's
  counter once.  So with a maximum that is not negative every counter equals
  \<open>MAX_REFLECTIONS\<close> at the end, and in particular is at most \<open>MAX_REFLECTIONS\<close>; with a
  negative maximum every counter is 0.
\<close>

theorem reflection_count_bound:
  assumes "planned a"
    and "process_paragraphs nd MAX_REFLECTIONS a = Inr a'"
  shows "length (paragraphs a') = length (paragraphs a) \<and>
         (\<forall>j<length (paragraphs a').
            count_list (calls a') (Reflection j) = nat MAX_REFLECTIONS \<and>
            count_list (calls a') (ReflectionSummary j) = nat MAX_REFLECTIONS \<and>
            reflection_count (paragraph_research (paragraphs a' ! j)) = nat MAX_REFLECTIONS \<and>
            (0 \<le> MAX_REFLECTIONS \<longrightarrow>
               int (count_list (calls a') (Reflection j)) = MAX_REFLECTIONS \<and>
               int (count_list (calls a') (ReflectionSummary j)) = MAX_REFLECTIONS \<and>
               int (reflection_count (paragraph_research (paragraphs a' ! j))) = MAX_REFLECTIONS \<and>
               int (reflection_count (paragraph_research (paragraphs a' ! j))) \<le> MAX_REFLECTIONS) \<and>
            (MAX_REFLECTIONS < 0 \<longrightarrow>
               count_list (calls a') (Reflection j) = 0 \<and>
               reflection_count (paragraph_research (paragraphs a' ! j)) = 0))"
proof -
  have "advanced a a' (\<lambda>j. if j \<in> set [0..<length (paragraphs a)] then nat MAX_REFLECTIONS else 0)"
    using assms(2) unfolding process_paragraphs_def
    by (intro process_indices_advanced) simp_all
  moreover have "\<forall>j<length (paragraphs a). reflections_of a j = 0"
    using assms(1) by (simp add: planned_def reflections_of_def)
  moreover have "calls a = []" using assms(1) by (simp add: planned_def)
  ultimately show ?thesis
    by (simp add: advanced_def reflections_of_def)
qed

theorem reflection_count_bound_witness:
  "planned two_paragraphs \<and>
   (case process_paragraphs steady_nodes 2 two_paragraphs of
      Inl e \<Rightarrow> False
    | Inr a' \<Rightarrow>
        calls a' = [FirstSearch 0, FirstSummary 0, Reflection 0, ReflectionSummary 0,
                    Reflection 0, ReflectionSummary 0,
                    FirstSearch 1, FirstSummary 1, Reflection 1, ReflectionSummary 1,
                    Reflection 1, ReflectionSummary 1] \<and>
        map (\<lambda>p. reflection_count (paragraph_research p)) (paragraphs a') = [2, 2])"
proof -
  have p: "planned two_paragraphs"
    by (simp add: planned_def two_paragraphs_def fresh_research_def)
  obtain a' where run: "process_paragraphs steady_nodes 2 two_paragraphs = Inr a'"
    and c: "calls a' = [FirstSearch 0, FirstSummary 0, Reflection 0, ReflectionSummary 0,
                    Reflection 0, ReflectionSummary 0,
                    FirstSearch 1, FirstSummary 1, Reflection 1, ReflectionSummary 1,
                    Reflection 1, ReflectionSummary 1]"
    by (simp add: process_paragraphs_def two_paragraphs_def steady_nodes_def upt_rec
        initial_search_and_summary_def reflection_loop_def reflection_round_def Let_def
        first_summary_mutate_state_def reflection_summary_mutate_state_def update_research_def
        eval_nat_numeral)
  from reflection_count_bound [OF p run]
  have len: "length (paragraphs a') = length (paragraphs two_paragraphs)"
    and cnt: "\<forall>j<length (paragraphs a').
      reflection_count (paragraph_research (paragraphs a' ! j)) = nat 2"
    by simp_all
  have l2: "length (paragraphs a') = 2" using len by (simp add: two_paragraphs_def)
  then obtain x y where xy: "paragraphs a' = [x, y]"
    by (metis (no_types) length_0_conv length_Suc_conv numeral_2_eq_2)
  have "reflection_count (paragraph_research x) = 2 \<and> reflection_count (paragraph_research y) = 2"
    using cnt xy by (auto simp: less_Suc_eq)
  then show ?thesis using p run c xy by simp
qed

text \<open>
  The claim as it was written fails for a negative maximum, which the settings accept:
  with \<open>MAX_REFLECTIONS = -1\<close> the loop over \<open>range(-1)\<close> has no round, the run completes
  with the calls of the first search and the first summary only, and every counter is 0,
  which is more than the maximum.
\<close>

theorem reflection_count_negative_counterexample:
  "planned two_paragraphs \<and>
   map_sum id calls (process_paragraphs steady_nodes (- 1) two_paragraphs)
     = Inr [FirstSearch 0, FirstSummary 0, FirstSearch 1, FirstSummary 1] \<and>
   map_sum id (\<lambda>a'. map (\<lambda>p. int (reflection_count (paragraph_research p))) (paragraphs a'))
       (process_paragraphs steady_nodes (- 1) two_paragraphs)
     = Inr [0, 0] \<and>
   \<not> (0::int) \<le> - 1"
  by (simp add: planned_def process_paragraphs_def two_paragraphs_def steady_nodes_def upt_rec
      initial_search_and_summary_def reflection_loop_def Let_def fresh_research_def
      first_summary_mutate_state_def update_research_def add_search_results_def
      mark_completed_def eval_nat_numeral)

end
